theory Spec2Isabelle
  imports Main "HOL-Library.Char_ord" "HOL-Library.List_Lexorder" "HOL-Library.AList"
    "HOL-Library.Multiset"
begin

section \<open>Python values and exceptions\<close>

text \<open>
  The exceptions that \<^verbatim>\<open>db_sync.py\<close> can raise, as values. \<open>ValueError\<close> carries the
  column name of \<^verbatim>\<open>'Duplicate column name produced in schema: {}'\<close>; \<open>DbError\<close> stands
  for any exception of the connection (psycopg2), which the module never catches.
\<close>

datatype error =
    IndexError
  | KeyError
  | TypeError
  | AttributeError
  | ValueError string
  | DbError string

text \<open>
  JSON values, as \<^verbatim>\<open>json.loads\<close> hands them to the module: schemas and records are both
  nested Python values. A \<^verbatim>\<open>dict\<close> is an association list in insertion order whose keys
  are the property names (in a \<^verbatim>\<open>dict\<close> they are distinct; a lookup takes the first pair
  of a key). The value of a number is never inspected by the module.
\<close>

datatype json =
    JNull
  | JBool bool
  | JNum int
  | JStr string
  | JList "json list"
  | JObj "(string \<times> json) list"

text \<open>Python's \<^verbatim>\<open>dict(items)\<close>: a later pair overwrites the value of an equal key, which
  keeps the position of its first insertion.\<close>

definition py_dict :: "(string \<times> 'v) list \<Rightarrow> (string \<times> 'v) list" where
  "py_dict items = fold (\<lambda>(k, v) d. AList.update k v d) items []"

text \<open>Truthiness of a value (\<^verbatim>\<open>not d\<close> is its negation), and \<^verbatim>\<open>isinstance(d, dict)\<close>.\<close>

fun truthy :: "json \<Rightarrow> bool" where
  "truthy JNull = False"
| "truthy (JBool b) = b"
| "truthy (JNum n) = (n \<noteq> 0)"
| "truthy (JStr s) = (s \<noteq> [])"
| "truthy (JList xs) = (xs \<noteq> [])"
| "truthy (JObj kvs) = (kvs \<noteq> [])"

fun is_dict :: "json \<Rightarrow> bool" where
  "is_dict (JObj kvs) = True"
| "is_dict _ = False"

subsection \<open>Characters and strings\<close>

text \<open>
  A \<^typ>\<open>string\<close> is a list of characters, one per character of the Python \<^verbatim>\<open>str\<close>.
  Every name is first mapped into \<^verbatim>\<open>[a-zA-Z0-9_]\<close> by \<open>inflect_name\<close>, where a character
  that is no ASCII letter or digit becomes an underscore whatever it is, so the case
  conversions below are the ASCII ones; the names and types that the database reports
  are taken to be ASCII as well.
\<close>

definition is_upper :: "char \<Rightarrow> bool" where
  "is_upper c = (CHR ''A'' \<le> c \<and> c \<le> CHR ''Z'')"

definition is_lower :: "char \<Rightarrow> bool" where
  "is_lower c = (CHR ''a'' \<le> c \<and> c \<le> CHR ''z'')"

definition is_digit :: "char \<Rightarrow> bool" where
  "is_digit c = (CHR ''0'' \<le> c \<and> c \<le> CHR ''9'')"

definition lower_char :: "char \<Rightarrow> char" where
  "lower_char c = (if is_upper c then char_of (of_char c + (32::nat)) else c)"

definition upper_char :: "char \<Rightarrow> char" where
  "upper_char c = (if is_lower c then char_of (of_char c - (32::nat)) else c)"

definition lower :: "string \<Rightarrow> string" where
  "lower s = map lower_char s"

text \<open>\<^verbatim>\<open>sep.join(xs)\<close>\<close>

fun join :: "string \<Rightarrow> string list \<Rightarrow> string" where
  "join sep [] = []"
| "join sep [x] = x"
| "join sep (x # y # ys) = x @ sep @ join sep (y # ys)"

subsection \<open>Python operations on JSON values\<close>

text \<open>\<^verbatim>\<open>v[key]\<close> with a string key.\<close>

fun getitem :: "json \<Rightarrow> string \<Rightarrow> error + json" where
  "getitem (JObj kvs) key = (case map_of kvs key of None \<Rightarrow> Inl KeyError | Some v \<Rightarrow> Inr v)"
| "getitem _ key = Inl TypeError"

text \<open>\<^verbatim>\<open>v[0]\<close>: the first element of a list, the first character of a string; a
  \<^verbatim>\<open>dict\<close> of JSON has no key \<^verbatim>\<open>0\<close>.\<close>

fun getitem0 :: "json \<Rightarrow> error + json" where
  "getitem0 (JList xs) = (case xs of [] \<Rightarrow> Inl IndexError | x # _ \<Rightarrow> Inr x)"
| "getitem0 (JStr s) = (case s of [] \<Rightarrow> Inl IndexError | c # _ \<Rightarrow> Inr (JStr [c]))"
| "getitem0 (JObj kvs) = Inl KeyError"
| "getitem0 _ = Inl TypeError"

text \<open>\<^verbatim>\<open>v.items()\<close> and \<^verbatim>\<open>v.keys()\<close> exist on a \<^verbatim>\<open>dict\<close> only.\<close>

fun py_items :: "json \<Rightarrow> error + (string \<times> json) list" where
  "py_items (JObj kvs) = Inr kvs"
| "py_items _ = Inl AttributeError"

fun py_keys :: "json \<Rightarrow> error + string list" where
  "py_keys (JObj kvs) = Inr (map fst kvs)"
| "py_keys _ = Inl AttributeError"

text \<open>\<^verbatim>\<open>s in t\<close> for two strings: \<open>s\<close> occurs in \<open>t\<close>.\<close>

fun is_substring :: "string \<Rightarrow> string \<Rightarrow> bool" where
  "is_substring s [] = (s = [])"
| "is_substring s (c # cs) = (take (length s) (c # cs) = s \<or> is_substring s cs)"

text \<open>\<^verbatim>\<open>key in v\<close> with a string key: a key of a \<^verbatim>\<open>dict\<close>, an element of a list, a
  substring of a string; the other values are not containers.\<close>

fun py_in :: "string \<Rightarrow> json \<Rightarrow> error + bool" where
  "py_in key (JObj kvs) = Inr (key \<in> set (map fst kvs))"
| "py_in key (JList xs) = Inr (JStr key \<in> set xs)"
| "py_in key (JStr s) = Inr (is_substring key s)"
| "py_in key _ = Inl TypeError"

section \<open>Type generalisation\<close>

text \<open>
  \<^verbatim>\<open>JSONSCHEMA_TYPES\<close>, \<^verbatim>\<open>JSONSCHEMA_TYPE_TO_POSTGRES_TYPE\<close> and
  \<^verbatim>\<open>_JSONSCHEMA_TYPE_CAN_CAST_TO\<close>, the three tables of the module.
\<close>

definition JSONSCHEMA_TYPES :: "string set" where
  "JSONSCHEMA_TYPES =
     {''string'', ''number'', ''integer'', ''object'', ''array'', ''boolean'', ''null''}"

definition JSONSCHEMA_TYPE_TO_POSTGRES_TYPE :: "string \<rightharpoonup> string" where
  "JSONSCHEMA_TYPE_TO_POSTGRES_TYPE =
     [''string'' \<mapsto> ''character varying'',
      ''number'' \<mapsto> ''numeric'',
      ''integer'' \<mapsto> ''bigint'',
      ''object'' \<mapsto> ''jsonb'',
      ''array'' \<mapsto> ''jsonb'',
      ''boolean'' \<mapsto> ''boolean'']"

definition JSONSCHEMA_TYPE_CAN_CAST_TO :: "string \<rightharpoonup> string set" where
  "JSONSCHEMA_TYPE_CAN_CAST_TO =
     [''string'' \<mapsto> JSONSCHEMA_TYPES,
      ''number'' \<mapsto> {''integer'', ''boolean''},
      ''integer'' \<mapsto> {''boolean''},
      ''object'' \<mapsto> {''array''},
      ''array'' \<mapsto> {},
      ''boolean'' \<mapsto> {},
      ''null'' \<mapsto> {}]"

definition get_usable_types :: "string set \<Rightarrow> string set" where
  "get_usable_types types = JSONSCHEMA_TYPES \<inter> (types - {''null''})"

definition get_castable_types :: "string \<Rightarrow> string set" where
  "get_castable_types target_type =
     (let accepts = (case JSONSCHEMA_TYPE_CAN_CAST_TO target_type of
                       None \<Rightarrow> {} | Some s \<Rightarrow> s);
          accepts = accepts \<union> {target_type}
      in get_usable_types accepts)"

text \<open>
  The loop of \<open>most_general_type\<close> over \<^verbatim>\<open>sorted(types)\<close>, with the pair
  \<^verbatim>\<open>best_score, best_type\<close> as its state (\<open>None\<close> is Python's \<^verbatim>\<open>None\<close>).
\<close>

fun most_general_loop ::
  "string set \<Rightarrow> string list \<Rightarrow> nat \<times> string option \<Rightarrow> nat \<times> string option" where
  "most_general_loop types [] best = best"
| "most_general_loop types (t # ts) (best_score, best_type) =
     (let castable_types = get_castable_types t;
          score = card (castable_types \<inter> types)
      in if score > best_score
         then most_general_loop types ts (score, Some t)
         else most_general_loop types ts (best_score, best_type))"

definition most_general_type :: "string set \<Rightarrow> string" where
  "most_general_type types0 =
     (if types0 = {} then ''string''
      else
        let types = get_usable_types types0;
            (best_score, best_type) =
               most_general_loop types (sorted_list_of_set types) (0, None)
        in case best_type of
             None \<Rightarrow> ''string''
           | Some t \<Rightarrow> if \<not> (types \<subseteq> get_castable_types t) then ''string'' else t)"

text \<open>
  The score of a candidate kind, in the words of the specification: the number of
  observed kinds that can be cast to it.
\<close>

definition cast_score :: "string set \<Rightarrow> string \<Rightarrow> nat" where
  "cast_score types t = card (get_castable_types t \<inter> types)"

section \<open>Column names\<close>

subsection \<open>The regular-expression substitutions\<close>

text \<open>
  Each \<^verbatim>\<open>re.sub\<close> of the module and of the \<^verbatim>\<open>inflection\<close> package is a scan from left to
  right that rewrites every non-overlapping match and resumes after it. The patterns
  are short and anchored on character classes, so a match is decided by a window of at
  most four characters; the group \<^verbatim>\<open>([A-Z]+)\<close> is copied unchanged, and only its last
  character takes part in the window.
\<close>

definition is_alnum :: "char \<Rightarrow> bool" where
  "is_alnum c = (is_lower c \<or> is_upper c \<or> is_digit c)"

text \<open>\<^verbatim>\<open>re.sub(r'[^a-zA-Z0-9]', '_', name)\<close>\<close>

definition sub_non_alnum :: "string \<Rightarrow> string" where
  "sub_non_alnum name = map (\<lambda>c. if is_alnum c then c else CHR ''_'') name"

text \<open>\<^verbatim>\<open>re.sub(r"([A-Z]+)_([A-Z][a-z])", r'\1__\2', name)\<close>\<close>

fun sub_acronym_word :: "string \<Rightarrow> string" where
  "sub_acronym_word (a # u # b # c # rest) =
     (if is_upper a \<and> u = CHR ''_'' \<and> is_upper b \<and> is_lower c
      then a # CHR ''_'' # CHR ''_'' # b # c # sub_acronym_word rest
      else a # sub_acronym_word (u # b # c # rest))"
| "sub_acronym_word s = s"

text \<open>\<^verbatim>\<open>re.sub(r"([a-z\d])_([A-Z])", r'\1__\2', name)\<close>\<close>

fun sub_word_boundary :: "string \<Rightarrow> string" where
  "sub_word_boundary (a # u # b # rest) =
     (if (is_lower a \<or> is_digit a) \<and> u = CHR ''_'' \<and> is_upper b
      then a # CHR ''_'' # CHR ''_'' # b # sub_word_boundary rest
      else a # sub_word_boundary (u # b # rest))"
| "sub_word_boundary s = s"

subsection \<open>The \<^verbatim>\<open>inflection\<close> package\<close>

text \<open>
  \<^verbatim>\<open>inflection.underscore\<close> and \<^verbatim>\<open>inflection.camelize\<close> belong to a package the module
  imports; they are written here after the package's own definitions:
  \<^verbatim>\<open>
  def underscore(word):
      word = re.sub(r"([A-Z]+)([A-Z][a-z])", r'\1_\2', word)
      word = re.sub(r"([a-z\d])([A-Z])", r'\1_\2', word)
      word = word.replace("-", "_")
      return word.lower()

  def camelize(string, uppercase_first_letter=True):
      if uppercase_first_letter:
          return re.sub(r"(?:^|_)(.)", lambda m: m.group(1).upper(), string)
  \<close>
\<close>

fun underscore_acronym :: "string \<Rightarrow> string" where
  "underscore_acronym (a # b # c # rest) =
     (if is_upper a \<and> is_upper b \<and> is_lower c
      then a # CHR ''_'' # b # c # underscore_acronym rest
      else a # underscore_acronym (b # c # rest))"
| "underscore_acronym s = s"

fun underscore_boundary :: "string \<Rightarrow> string" where
  "underscore_boundary (a # b # rest) =
     (if (is_lower a \<or> is_digit a) \<and> is_upper b
      then a # CHR ''_'' # b # underscore_boundary rest
      else a # underscore_boundary (b # rest))"
| "underscore_boundary s = s"

definition underscore :: "string \<Rightarrow> string" where
  "underscore word0 =
     (let word = underscore_acronym word0;
          word = underscore_boundary word;
          word = map (\<lambda>c. if c = CHR ''-'' then CHR ''_'' else c) word
      in lower word)"

text \<open>
  In \<^verbatim>\<open>(?:^|_)(.)\<close> the alternative \<^verbatim>\<open>^\<close> matches at the first position only, where it
  takes one character; elsewhere an underscore and the character after it are
  replaced by that character in upper case. The dot matches no line feed.
\<close>

fun camelize_rest :: "string \<Rightarrow> string" where
  "camelize_rest (u # c # rest) =
     (if u = CHR ''_'' \<and> c \<noteq> CHR 0x0A
      then upper_char c # camelize_rest rest
      else u # camelize_rest (c # rest))"
| "camelize_rest s = s"

definition camelize :: "string \<Rightarrow> string" where
  "camelize s =
     (case s of
        [] \<Rightarrow> []
      | c # rest \<Rightarrow>
          if c \<noteq> CHR 0x0A then upper_char c # camelize_rest rest
          else camelize_rest (c # rest))"

subsection \<open>\<^verbatim>\<open>inflect_name\<close> and \<^verbatim>\<open>flatten_key\<close>\<close>

text \<open>\<^verbatim>\<open>name[0]\<close> raises \<^verbatim>\<open>IndexError\<close> on the empty string.\<close>

definition inflect_name :: "string \<Rightarrow> error + string" where
  "inflect_name name0 =
     (let name = sub_non_alnum name0;
          name = sub_acronym_word name;
          name = sub_word_boundary name
      in case name of
           [] \<Rightarrow> Inl IndexError
         | c # _ \<Rightarrow> Inr (underscore (if is_digit c then CHR ''_'' # name else name)))"

definition safe_column_name :: "string \<Rightarrow> string" where
  "safe_column_name name = ''\"'' @ name @ ''\"''"

text \<open>A list comprehension whose element expression may raise: the first exception
  leaves the comprehension.\<close>

fun map_raise :: "('a \<Rightarrow> error + 'b) \<Rightarrow> 'a list \<Rightarrow> error + 'b list" where
  "map_raise f [] = Inr []"
| "map_raise f (x # xs) =
     (case f x of
        Inl e \<Rightarrow> Inl e
      | Inr y \<Rightarrow> (case map_raise f xs of Inl e \<Rightarrow> Inl e | Inr ys \<Rightarrow> Inr (y # ys)))"

text \<open>
  The abbreviation of one segment in the loop of \<open>flatten_key\<close>:
  \<^verbatim>\<open>re.sub(r'[a-z]', '', inflection.camelize(seg))\<close>, or the first three characters of
  the segment when that leaves at most one character; in lower case.
\<close>

definition reduce_key :: "string \<Rightarrow> string" where
  "reduce_key seg =
     (let reduced_key = filter (\<lambda>c. \<not> is_lower c) (camelize seg)
      in lower (if length reduced_key > 1 then reduced_key else take 3 seg))"

function flatten_key_loop :: "string \<Rightarrow> string list \<Rightarrow> nat \<Rightarrow> string list" where
  "flatten_key_loop sep inflected_key reducer_index =
     (if length (join sep inflected_key) \<ge> 63 \<and> reducer_index < length inflected_key
      then flatten_key_loop sep
             (inflected_key[reducer_index := reduce_key (inflected_key ! reducer_index)])
             (reducer_index + 1)
      else inflected_key)"
  by pat_completeness auto
termination
  by (relation "measure (\<lambda>(sep, inflected_key, reducer_index).
        length inflected_key - reducer_index)") auto

declare flatten_key_loop.simps [simp del]

definition flatten_key :: "string \<Rightarrow> string list \<Rightarrow> string \<Rightarrow> error + string" where
  "flatten_key k parent_key sep =
     (let full_key = parent_key @ [k]
      in case map_raise inflect_name full_key of
           Inl e \<Rightarrow> Inl e
         | Inr inflected_key \<Rightarrow> Inr (join sep (flatten_key_loop sep inflected_key 0)))"

section \<open>Flattening a schema\<close>

text \<open>
  What the body of the loop of \<open>flatten_schema\<close> does with the schema \<open>v\<close> of one
  property, after \<open>new_key\<close> is computed: it descends into \<open>v\<close>, appends an item for it,
  or appends nothing (the \<^verbatim>\<open>continue\<close> and the logged warning).
\<close>

datatype node_action = Descend json | Append json | Nothing

definition resolve_anyOf :: "json \<Rightarrow> error + json" where
  "resolve_anyOf v =
     (case py_in ''anyOf'' v of
        Inl e \<Rightarrow> Inl e
      | Inr True \<Rightarrow>
          (case getitem v ''anyOf'' of Inl e \<Rightarrow> Inl e | Inr alts \<Rightarrow> getitem0 alts)
      | Inr False \<Rightarrow> Inr v)"

text \<open>The branch \<^verbatim>\<open>if 'type' in v.keys()\<close>.\<close>

definition typed_node :: "json \<Rightarrow> error + node_action" where
  "typed_node v =
     (case getitem v ''type'' of
        Inl e \<Rightarrow> Inl e
      | Inr t \<Rightarrow>
          (case py_in ''object'' t of
             Inl e \<Rightarrow> Inl e
           | Inr is_object \<Rightarrow>
               if is_object \<and> py_in ''properties'' v = Inr True
               then Inr (Descend v) else Inr (Append v)))"

text \<open>
  The branch without \<^verbatim>\<open>'type'\<close>: \<^verbatim>\<open>list(v.values())[0][0]\<close> is the first element of the
  first value of \<open>v\<close>; its \<^verbatim>\<open>'type'\<close> is overwritten in place before it is appended.
\<close>

definition untyped_node :: "(string \<times> json) list \<Rightarrow> error + node_action" where
  "untyped_node kvs =
     (case kvs of
        [] \<Rightarrow> Inr Nothing
      | (_, first_value) # _ \<Rightarrow>
          (case getitem0 first_value of
             Inl e \<Rightarrow> Inl e
           | Inr x \<Rightarrow>
               (case getitem x ''type'' of
                  Inl e \<Rightarrow> Inl e
                | Inr t \<Rightarrow>
                    (case x of
                       JObj xkvs \<Rightarrow>
                         if t = JStr ''string''
                         then Inr (Append (JObj (AList.update ''type''
                                (JList [JStr ''null'', JStr ''string'']) xkvs)))
                         else if t = JStr ''array''
                         then Inr (Append (JObj (AList.update ''type''
                                (JList [JStr ''null'', JStr ''array'']) xkvs)))
                         else Inr Nothing
                     | _ \<Rightarrow> Inl TypeError))))"

definition schema_node :: "json \<Rightarrow> error + node_action" where
  "schema_node v0 =
     (case resolve_anyOf v0 of
        Inl e \<Rightarrow> Inl e
      | Inr v \<Rightarrow>
          (case py_keys v of
             Inl e \<Rightarrow> Inl e
           | Inr ks \<Rightarrow>
               if ''type'' \<in> set ks then typed_node v
               else (case v of JObj kvs \<Rightarrow> untyped_node kvs | _ \<Rightarrow> Inl AttributeError)))"

text \<open>\<^verbatim>\<open>itertools.groupby\<close> on a key function, and the check of the groups.\<close>

function groupby :: "('a \<Rightarrow> 'k) \<Rightarrow> 'a list \<Rightarrow> ('k \<times> 'a list) list" where
  "groupby f [] = []"
| "groupby f (x # xs) =
     (f x, x # takeWhile (\<lambda>y. f y = f x) xs) # groupby f (dropWhile (\<lambda>y. f y = f x) xs)"
  by pat_completeness auto
termination
  by (relation "measure (\<lambda>(f, xs). length xs)") (auto simp: le_imp_less_Suc length_dropWhile_le)

fun first_duplicate :: "('k \<times> 'a list) list \<Rightarrow> 'k option" where
  "first_duplicate [] = None"
| "first_duplicate ((k, g) # gs) = (if length g > 1 then Some k else first_duplicate gs)"

lemma size_map_of:
  "map_of kvs key = Some v \<Longrightarrow> size v < Suc (size_list (size_prod (\<lambda>x. 0) size) kvs)"
  by (induction kvs) (auto split: if_splits)

lemma size_getitem: "getitem d key = Inr v \<Longrightarrow> size v < size d"
  by (cases d) (auto split: option.splits dest: size_map_of)

lemma size_getitem0: "getitem0 d = Inr v \<Longrightarrow> size v \<le> size d"
  by (cases d) (auto split: list.splits)

lemma size_py_items:
  "py_items d = Inr kvs \<Longrightarrow> size_list (size_prod (\<lambda>x. 0) size) kvs < size d"
  by (cases d) auto

lemma size_resolve_anyOf: "resolve_anyOf v0 = Inr v \<Longrightarrow> size v \<le> size v0"
  by (auto simp: resolve_anyOf_def split: sum.splits bool.splits
      dest!: size_getitem size_getitem0)

lemma size_typed_node: "typed_node v = Inr (Descend w) \<Longrightarrow> w = v"
  by (auto simp: typed_node_def split: sum.splits if_splits)

lemma untyped_node_no_Descend: "untyped_node kvs \<noteq> Inr (Descend w)"
  by (auto simp: untyped_node_def split: sum.splits if_splits list.splits json.splits)

lemma size_schema_node: "schema_node v0 = Inr (Descend v) \<Longrightarrow> size v \<le> size v0"
  by (auto simp: schema_node_def untyped_node_no_Descend split: sum.splits if_splits json.splits
      dest!: size_resolve_anyOf size_typed_node)

text \<open>
  \<open>flatten_schema\<close>, with the body of its loop as \<open>flatten_schema_items\<close>: the list
  \<^verbatim>\<open>items\<close> of the properties of \<^verbatim>\<open>d['properties']\<close>, in their order. A nested object
  contributes the items of its own flattened schema, which has passed its own check.
  The items are sorted by name, a name that occurs twice raises \<^verbatim>\<open>ValueError\<close>, and the
  sorted items are returned as a \<^verbatim>\<open>dict\<close>.
\<close>

function flatten_schema :: "json \<Rightarrow> string list \<Rightarrow> string \<Rightarrow> error + (string \<times> json) list"
and flatten_schema_items ::
  "(string \<times> json) list \<Rightarrow> string list \<Rightarrow> string \<Rightarrow> error + (string \<times> json) list" where
  "flatten_schema d parent_key sep =
     (case getitem d ''properties'' of
        Inl e \<Rightarrow> Inl e
      | Inr props \<Rightarrow>
          (case py_items props of
             Inl e \<Rightarrow> Inl e
           | Inr kvs \<Rightarrow>
               (case flatten_schema_items kvs parent_key sep of
                  Inl e \<Rightarrow> Inl e
                | Inr items \<Rightarrow>
                    (let sorted_items = sort_key fst items
                     in case first_duplicate (groupby fst sorted_items) of
                          Some k \<Rightarrow> Inl (ValueError k)
                        | None \<Rightarrow> Inr (py_dict sorted_items)))))"
| "flatten_schema_items [] parent_key sep = Inr []"
| "flatten_schema_items ((k, v0) # rest) parent_key sep =
     (case flatten_key k parent_key sep of
        Inl e \<Rightarrow> Inl e
      | Inr new_key \<Rightarrow>
          (case schema_node v0 of
             Inl e \<Rightarrow> Inl e
           | Inr (Descend v) \<Rightarrow>
               (case flatten_schema v (parent_key @ [k]) sep of
                  Inl e \<Rightarrow> Inl e
                | Inr sub \<Rightarrow>
                    (case flatten_schema_items rest parent_key sep of
                       Inl e \<Rightarrow> Inl e
                     | Inr items \<Rightarrow> Inr (sub @ items)))
           | Inr (Append v) \<Rightarrow>
               (case flatten_schema_items rest parent_key sep of
                  Inl e \<Rightarrow> Inl e
                | Inr items \<Rightarrow> Inr ((new_key, v) # items))
           | Inr Nothing \<Rightarrow> flatten_schema_items rest parent_key sep))"
  by pat_completeness auto
termination
  apply (relation "measure (\<lambda>x. case x of
            Inl (d, _, _) \<Rightarrow> 2 * size d
          | Inr (kvs, _, _) \<Rightarrow> 2 * size_list (size_prod (\<lambda>x. 0) size) kvs + 1)")
      apply (auto dest!: size_getitem size_py_items size_schema_node)
  done

declare flatten_schema.simps(1) [simp del]

text \<open>
  The columns that the properties of a schema generate, each with the path of
  property names it comes from: the traversal of \<open>flatten_schema\<close>, without the check
  for duplicates and the sorting. It is the reference for what the generated names of
  a schema are.
\<close>

function schema_columns ::
  "json \<Rightarrow> string list \<Rightarrow> string \<Rightarrow> error + (string list \<times> string \<times> json) list"
and schema_columns_items ::
  "(string \<times> json) list \<Rightarrow> string list \<Rightarrow> string
     \<Rightarrow> error + (string list \<times> string \<times> json) list" where
  "schema_columns d parent_key sep =
     (case getitem d ''properties'' of
        Inl e \<Rightarrow> Inl e
      | Inr props \<Rightarrow>
          (case py_items props of
             Inl e \<Rightarrow> Inl e
           | Inr kvs \<Rightarrow> schema_columns_items kvs parent_key sep))"
| "schema_columns_items [] parent_key sep = Inr []"
| "schema_columns_items ((k, v0) # rest) parent_key sep =
     (case flatten_key k parent_key sep of
        Inl e \<Rightarrow> Inl e
      | Inr new_key \<Rightarrow>
          (case schema_node v0 of
             Inl e \<Rightarrow> Inl e
           | Inr (Descend v) \<Rightarrow>
               (case schema_columns v (parent_key @ [k]) sep of
                  Inl e \<Rightarrow> Inl e
                | Inr sub \<Rightarrow>
                    (case schema_columns_items rest parent_key sep of
                       Inl e \<Rightarrow> Inl e
                     | Inr cols \<Rightarrow> Inr (sub @ cols)))
           | Inr (Append v) \<Rightarrow>
               (case schema_columns_items rest parent_key sep of
                  Inl e \<Rightarrow> Inl e
                | Inr cols \<Rightarrow> Inr ((parent_key @ [k], new_key, v) # cols))
           | Inr Nothing \<Rightarrow> schema_columns_items rest parent_key sep))"
  by pat_completeness auto
termination
  apply (relation "measure (\<lambda>x. case x of
            Inl (d, _, _) \<Rightarrow> 2 * size d
          | Inr (kvs, _, _) \<Rightarrow> 2 * size_list (size_prod (\<lambda>x. 0) size) kvs + 1)")
      apply (auto dest!: size_getitem size_py_items size_schema_node)
  done

declare schema_columns.simps(1) [simp del]

section \<open>Flattening a record\<close>

text \<open>
  \<^verbatim>\<open>json.dumps\<close> belongs to the standard library, and \<open>flatten_record\<close> takes it as the
  argument \<open>dumps\<close>. \<open>json_dumps\<close> follows its default output (separators \<^verbatim>\<open>', '\<close> and
  \<^verbatim>\<open>': '\<close>, \<^verbatim>\<open>ensure_ascii\<close>) for the concrete examples.
\<close>

fun hex_digit :: "nat \<Rightarrow> char" where
  "hex_digit n = (''0123456789abcdef'' ! (n mod 16))"

fun show_nat :: "nat \<Rightarrow> string" where
  "show_nat n =
     (if n < 10 then [''0123456789'' ! n]
      else show_nat (n div 10) @ [''0123456789'' ! (n mod 10)])"

declare show_nat.simps [simp del]

definition show_int :: "int \<Rightarrow> string" where
  "show_int i = (if i < 0 then CHR ''-'' # show_nat (nat (- i)) else show_nat (nat i))"

definition escape_char :: "char \<Rightarrow> string" where
  "escape_char c =
     (if c = CHR 0x22 then [CHR 0x5C, CHR 0x22]
      else if c = CHR 0x5C then [CHR 0x5C, CHR 0x5C]
      else if c = CHR 0x0A then [CHR 0x5C, CHR ''n'']
      else if c = CHR 0x0D then [CHR 0x5C, CHR ''r'']
      else if c = CHR 0x09 then [CHR 0x5C, CHR ''t'']
      else if c = CHR 0x08 then [CHR 0x5C, CHR ''b'']
      else if c = CHR 0x0C then [CHR 0x5C, CHR ''f'']
      else if (of_char c :: nat) < 32 \<or> (of_char c :: nat) > 127
      then [CHR 0x5C, CHR ''u'', CHR ''0'', CHR ''0'',
            hex_digit (of_char c div 16), hex_digit (of_char c)]
      else [c])"

definition dumps_str :: "string \<Rightarrow> string" where
  "dumps_str s = [CHR 0x22] @ concat (map escape_char s) @ [CHR 0x22]"

fun json_dumps :: "json \<Rightarrow> string" where
  "json_dumps JNull = ''null''"
| "json_dumps (JBool b) = (if b then ''true'' else ''false'')"
| "json_dumps (JNum n) = show_int n"
| "json_dumps (JStr s) = dumps_str s"
| "json_dumps (JList xs) = ''['' @ join '', '' (map json_dumps xs) @ '']''"
| "json_dumps (JObj kvs) =
     ''{'' @ join '', '' (map (\<lambda>(k, v). dumps_str k @ '': '' @ json_dumps v) kvs) @ ''}''"

text \<open>
  \<open>flatten_record\<close>, with the body of its loop as \<open>flatten_record_items\<close>: the list
  \<^verbatim>\<open>items\<close> the loop builds, from which \<^verbatim>\<open>dict(items)\<close> is returned. A \<^verbatim>\<open>dict\<close> is the only
  \<^verbatim>\<open>MutableMapping\<close> among JSON values. After the first test \<open>d\<close> is a non-empty
  \<^verbatim>\<open>dict\<close>, whose items the loop visits.
\<close>

fun flatten_record ::
  "(json \<Rightarrow> string) \<Rightarrow> json \<Rightarrow> string list \<Rightarrow> string \<Rightarrow> error + (string \<times> json) list"
and flatten_record_items ::
  "(json \<Rightarrow> string) \<Rightarrow> (string \<times> json) list \<Rightarrow> string list \<Rightarrow> string
     \<Rightarrow> error + (string \<times> json) list" where
  "flatten_record dumps d parent_key sep =
     (if \<not> truthy d \<or> \<not> is_dict d then Inr []
      else case d of
             JObj kvs \<Rightarrow>
               (case flatten_record_items dumps kvs parent_key sep of
                  Inl e \<Rightarrow> Inl e
                | Inr items \<Rightarrow> Inr (py_dict items))
           | _ \<Rightarrow> Inr [])"
| "flatten_record_items dumps [] parent_key sep = Inr []"
| "flatten_record_items dumps ((k, v) # rest) parent_key sep =
     (case flatten_key k parent_key sep of
        Inl e \<Rightarrow> Inl e
      | Inr new_key \<Rightarrow>
          (case (case v of
                   JObj _ \<Rightarrow>
                     (case flatten_record dumps v (parent_key @ [k]) sep of
                        Inl e \<Rightarrow> Inl e
                      | Inr sub \<Rightarrow> Inr (sub @ [(new_key, JStr (dumps v))]))
                 | JList _ \<Rightarrow> Inr [(new_key, JStr (dumps v))]
                 | _ \<Rightarrow> Inr [(new_key, v)]) of
             Inl e \<Rightarrow> Inl e
           | Inr appended \<Rightarrow>
               (case flatten_record_items dumps rest parent_key sep of
                  Inl e \<Rightarrow> Inl e
                | Inr items \<Rightarrow> Inr (appended @ items))))"

section \<open>Column types\<close>

text \<open>\<^verbatim>\<open>schema_property['format'] if 'format' in schema_property else None\<close>\<close>

definition property_format_of :: "json \<Rightarrow> json option" where
  "property_format_of schema_property =
     (case getitem schema_property ''format'' of Inl _ \<Rightarrow> None | Inr f \<Rightarrow> Some f)"

definition column_type_simple :: "json \<Rightarrow> error + string" where
  "column_type_simple schema_property =
     (case getitem schema_property ''type'' of
        Inl e \<Rightarrow> Inl e
      | Inr property_type \<Rightarrow>
          (case py_in ''object'' property_type of
             Inl e \<Rightarrow> Inl e
           | Inr has_object \<Rightarrow>
               (let property_format = property_format_of schema_property;
                    has = (\<lambda>t. py_in t property_type = Inr True)
                in Inr (if has_object \<or> has ''array'' then ''jsonb''
                        else if property_format = Some (JStr ''date-time'')
                        then ''timestamp with time zone''
                        else if property_format = Some (JStr ''date'') then ''date''
                        else if has ''number'' then ''numeric''
                        else if has ''integer'' \<and> has ''string'' then ''character varying''
                        else if has ''boolean'' then ''boolean''
                        else if has ''integer'' then ''bigint''
                        else ''character varying''))))"

text \<open>
  The argument of \<open>most_general_type\<close> in \<^verbatim>\<open>_column_type_generic\<close>: a string is wrapped
  in a list, and \<^verbatim>\<open>set(types)\<close> needs an iterable of hashable values. Elements that are
  not strings are in no table of the module, so they count for nothing but the
  emptiness test, whose answer \<^verbatim>\<open>'string'\<close> is also the answer when no usable kind is
  left.
\<close>

fun type_names :: "json \<Rightarrow> error + string set" where
  "type_names (JStr s) = Inr {s}"
| "type_names (JList xs) =
     (if \<exists>x \<in> set xs. (case x of JList _ \<Rightarrow> True | JObj _ \<Rightarrow> True | _ \<Rightarrow> False)
      then Inl TypeError
      else Inr (set (concat (map (\<lambda>x. case x of JStr s \<Rightarrow> [s] | _ \<Rightarrow> []) xs))))"
| "type_names (JObj kvs) = Inr (set (map fst kvs))"
| "type_names JNull = Inr {}"
| "type_names (JBool b) = (if b then Inl TypeError else Inr {})"
| "type_names (JNum n) = (if n = 0 then Inr {} else Inl TypeError)"

definition column_type_generic :: "json \<Rightarrow> error + string" where
  "column_type_generic schema_property =
     (let property_format = property_format_of schema_property
      in case getitem schema_property ''type'' of
           Inl e \<Rightarrow> Inl e
         | Inr types \<Rightarrow>
             (case type_names types of
                Inl e \<Rightarrow> Inl e
              | Inr names \<Rightarrow>
                  (let concrete_type = most_general_type names
                   in if concrete_type = ''string'' \<and> property_format = Some (JStr ''date-time'')
                      then Inr ''timestamp with time zone''
                      else if concrete_type = ''string'' \<and> property_format = Some (JStr ''date'')
                      then Inr ''date''
                      else (case JSONSCHEMA_TYPE_TO_POSTGRES_TYPE concrete_type of
                              Some t \<Rightarrow> Inr t
                            | None \<Rightarrow>
                                (case JSONSCHEMA_TYPE_TO_POSTGRES_TYPE ''string'' of
                                   Some t \<Rightarrow> Inr t
                                 | None \<Rightarrow> Inl KeyError)))))"

definition column_type :: "json \<Rightarrow> bool \<Rightarrow> error + string" where
  "column_type schema_property use_simple =
     (if use_simple then column_type_simple schema_property
      else column_type_generic schema_property)"

definition column_clause :: "string \<Rightarrow> json \<Rightarrow> bool \<Rightarrow> error + string" where
  "column_clause name schema_property use_simple =
     (case column_type schema_property use_simple of
        Inl e \<Rightarrow> Inl e
      | Inr t \<Rightarrow> Inr (safe_column_name name @ '' '' @ t))"

section \<open>Statements and the connection\<close>

text \<open>
  The statements the module sends to the connection. A constructor stands for one
  format string of the module and carries the arguments of its \<^verbatim>\<open>format\<close>, in order:
  \<^item> \<open>CreateTable temp t cols pk\<close>: \<^verbatim>\<open>CREATE {}TABLE {} ({})\<close> with \<^verbatim>\<open>TEMP\<close> when \<open>temp\<close>, the
    column clauses \<open>cols\<close> and, when \<open>pk\<close> is not empty, \<^verbatim>\<open>PRIMARY KEY ({})\<close> over \<open>pk\<close>;
  \<^item> \<open>CopyExpert t cols file\<close>: \<^verbatim>\<open>COPY {} ({}) FROM STDIN WITH (FORMAT CSV)\<close>, with the
    rows of the file given to \<^verbatim>\<open>copy_expert\<close>;
  \<^item> \<open>UpdateFrom t cols s names\<close>: \<^verbatim>\<open>UPDATE {} SET {} FROM {} s WHERE {}\<close>, setting every
    \<^verbatim>\<open>c=s.c\<close> of \<open>cols\<close> where \<^verbatim>\<open>s.k = t.k\<close> for every \<open>k\<close> of \<open>names\<close>;
  \<^item> \<open>InsertAll t cols s\<close>: \<^verbatim>\<open>INSERT INTO {} ({}) (SELECT s.* FROM {} s)\<close>;
  \<^item> \<open>InsertNew t cols s names\<close>:
    \<^verbatim>\<open>INSERT INTO {} ({}) (SELECT s.* FROM {} s LEFT OUTER JOIN {} t ON {} WHERE {})\<close>,
    joined on \<^verbatim>\<open>s.k = t.k\<close> and kept where \<^verbatim>\<open>t.k is null\<close>, for every \<open>k\<close> of \<open>names\<close>;
  \<^item> \<open>DropTable s\<close>: \<^verbatim>\<open>DROP TABLE {}\<close>;
  \<^item> \<open>AddColumn t clause\<close>: \<^verbatim>\<open>ALTER TABLE {} ADD COLUMN {}\<close>;
  \<^item> \<open>DropColumn t name\<close>: \<^verbatim>\<open>ALTER TABLE {} DROP COLUMN {}\<close>;
  \<^item> \<open>SelectColumns t s\<close>: the query of \<^verbatim>\<open>get_table_columns\<close> on
    \<^verbatim>\<open>information_schema.columns\<close>, with its two parameters.
\<close>

datatype stmt =
    CreateTable bool string "string list" "string list"
  | CopyExpert string "string list" "string list list"
  | UpdateFrom string "string list" string "string list"
  | InsertAll string "string list" string
  | InsertNew string "string list" string "string list"
  | DropTable string
  | AddColumn string string
  | DropColumn string string
  | SelectColumns string string

text \<open>
  The connection: it executes a statement on the state of the database and returns
  the rows fetched (each a \<^verbatim>\<open>DictRow\<close>, from column name to value) and the new state,
  or raises. The module opens a connection for every query and catches nothing.
\<close>

type_synonym dict_row = "(string \<times> string) list"

type_synonym 'db conn = "stmt \<Rightarrow> 'db \<Rightarrow> error + (dict_row list \<times> 'db)"

text \<open>
  A method that talks to the connection: from the state of the database to the
  statements it has sent, in order, and either the exception that ended it or its
  value and the new state.
\<close>

type_synonym ('db, 'a) action = "'db \<Rightarrow> stmt list \<times> (error + ('a \<times> 'db))"

definition pure_result :: "error + 'a \<Rightarrow> ('db, 'a) action" where
  "pure_result r db = ([], case r of Inl e \<Rightarrow> Inl e | Inr a \<Rightarrow> Inr (a, db))"

definition and_then :: "('db, 'a) action \<Rightarrow> ('a \<Rightarrow> ('db, 'b) action) \<Rightarrow> ('db, 'b) action" where
  "and_then m f db =
     (case m db of
        (sent, Inl e) \<Rightarrow> (sent, Inl e)
      | (sent, Inr (a, db1)) \<Rightarrow> (case f a db1 of (sent2, r) \<Rightarrow> (sent @ sent2, r)))"

text \<open>What an action sent and how it ended, without the state of the database.\<close>

definition outcome :: "stmt list \<times> (error + ('a \<times> 'db)) \<Rightarrow> stmt list \<times> (error + 'a)" where
  "outcome r = (fst r, case snd r of Inl e \<Rightarrow> Inl e | Inr (a, db) \<Rightarrow> Inr a)"

text \<open>\<^verbatim>\<open>cur.execute(q)\<close>, and \<^verbatim>\<open>self.query(q)\<close> with the rows it returns.\<close>

definition query :: "'db conn \<Rightarrow> stmt \<Rightarrow> ('db, dict_row list) action" where
  "query ex q db = ([q], ex q db)"

text \<open>A \<^verbatim>\<open>for\<close> loop whose body is an action.\<close>

fun for_each :: "('a \<Rightarrow> ('db, unit) action) \<Rightarrow> 'a list \<Rightarrow> ('db, unit) action" where
  "for_each body [] = pure_result (Inr ())"
| "for_each body (x # xs) = and_then (body x) (\<lambda>_. for_each body xs)"

text \<open>\<^verbatim>\<open>cur.execute(self.f())\<close>: the statement is built, which may raise, and then sent.\<close>

definition execute :: "'db conn \<Rightarrow> error + stmt \<Rightarrow> ('db, unit) action" where
  "execute ex built =
     and_then (pure_result built) (\<lambda>q. and_then (query ex q) (\<lambda>_. pure_result (Inr ())))"

section \<open>The class \<^verbatim>\<open>DbSync\<close>\<close>

text \<open>
  The configuration and the schema message are dictionaries whose keys the module
  reads with \<^verbatim>\<open>[...]\<close>; they are records of those keys. \<^verbatim>\<open>use_simple_column_type\<close> is
  read with \<^verbatim>\<open>.get(..., True)\<close>, so it may be absent. The connection parameters are
  passed to the connection untouched.
\<close>

record config =
  cfg_use_simple_column_type :: "bool option"
  cfg_schema :: string

record schema_message =
  stream :: string
  schema :: json
  key_properties :: "string list"

record DbSync =
  target_config :: config
  use_simple_column_type :: bool
  schema_name :: string
  stream_schema_message :: schema_message
  flatten_schema_of :: "(string \<times> json) list"

text \<open>
  \<^verbatim>\<open>DbSync.__init__\<close>. The constructor opens no connection and executes no statement:
  as an action it sends nothing, and it raises what \<open>flatten_schema\<close> raises.
\<close>

definition DbSync_init :: "config \<Rightarrow> schema_message \<Rightarrow> ('db, DbSync) action" where
  "DbSync_init cfg msg =
     pure_result
       (case flatten_schema (schema msg) [] ''__'' of
          Inl e \<Rightarrow> Inl e
        | Inr fs \<Rightarrow>
            Inr \<lparr> target_config = cfg,
                  use_simple_column_type =
                    (case cfg_use_simple_column_type cfg of None \<Rightarrow> True | Some b \<Rightarrow> b),
                  schema_name = cfg_schema cfg,
                  stream_schema_message = msg,
                  flatten_schema_of = fs \<rparr>)"

definition primary_column_names :: "schema_message \<Rightarrow> error + string list" where
  "primary_column_names msg =
     map_raise (\<lambda>p. case inflect_name p of Inl e \<Rightarrow> Inl e | Inr n \<Rightarrow> Inr (safe_column_name n))
       (key_properties msg)"

subsection \<open>The methods of \<^verbatim>\<open>DbSync\<close>\<close>

definition table_name :: "DbSync \<Rightarrow> string \<Rightarrow> bool \<Rightarrow> error + string" where
  "table_name self name is_temporary =
     (case inflect_name name of
        Inl e \<Rightarrow> Inl e
      | Inr inflected \<Rightarrow>
          if is_temporary then Inr (inflected @ ''_temp'')
          else Inr (schema_name self @ ''.'' @ inflected))"

definition column_names :: "DbSync \<Rightarrow> string list" where
  "column_names self = map (\<lambda>(name, _). safe_column_name name) (flatten_schema_of self)"

definition create_table_query :: "DbSync \<Rightarrow> bool \<Rightarrow> error + stmt" where
  "create_table_query self is_temporary =
     (let message = stream_schema_message self
      in case map_raise (\<lambda>(name, schema). column_clause name schema (use_simple_column_type self))
                (flatten_schema_of self) of
           Inl e \<Rightarrow> Inl e
         | Inr columns \<Rightarrow>
             (case (if length (key_properties message) \<noteq> 0
                    then primary_column_names message else Inr []) of
                Inl e \<Rightarrow> Inl e
              | Inr primary_key \<Rightarrow>
                  (case table_name self (stream message) is_temporary of
                     Inl e \<Rightarrow> Inl e
                   | Inr t \<Rightarrow> Inr (CreateTable is_temporary t columns primary_key))))"

definition insert_from_temp_table :: "DbSync \<Rightarrow> error + stmt" where
  "insert_from_temp_table self =
     (let message = stream_schema_message self;
          columns = column_names self
      in case table_name self (stream message) False of
           Inl e \<Rightarrow> Inl e
         | Inr table \<Rightarrow>
             (case table_name self (stream message) True of
                Inl e \<Rightarrow> Inl e
              | Inr temp_table \<Rightarrow>
                  if length (key_properties message) = 0
                  then Inr (InsertAll table columns temp_table)
                  else (case primary_column_names message of
                          Inl e \<Rightarrow> Inl e
                        | Inr names \<Rightarrow> Inr (InsertNew table columns temp_table names))))"

definition update_from_temp_table :: "DbSync \<Rightarrow> error + stmt" where
  "update_from_temp_table self =
     (let message = stream_schema_message self;
          columns = column_names self
      in case table_name self (stream message) False of
           Inl e \<Rightarrow> Inl e
         | Inr table \<Rightarrow>
             (case table_name self (stream message) True of
                Inl e \<Rightarrow> Inl e
              | Inr temp_table \<Rightarrow>
                  (case primary_column_names message of
                     Inl e \<Rightarrow> Inl e
                   | Inr names \<Rightarrow> Inr (UpdateFrom table columns temp_table names))))"

definition drop_temp_table :: "DbSync \<Rightarrow> error + stmt" where
  "drop_temp_table self =
     (case table_name self (stream (stream_schema_message self)) True of
        Inl e \<Rightarrow> Inl e
      | Inr temp_table \<Rightarrow> Inr (DropTable temp_table))"

text \<open>The \<^verbatim>\<open>copy_sql\<close> of \<open>load_csv\<close>, with the file handed to \<^verbatim>\<open>copy_expert\<close>.\<close>

definition copy_sql :: "DbSync \<Rightarrow> string list list \<Rightarrow> error + stmt" where
  "copy_sql self file =
     (case table_name self (stream (stream_schema_message self)) True of
        Inl e \<Rightarrow> Inl e
      | Inr temp_table \<Rightarrow> Inr (CopyExpert temp_table (column_names self) file))"

text \<open>
  \<open>load_csv\<close>: the five statements in the order of the source, on one cursor. The
  body has no \<^verbatim>\<open>try\<close>: an exception of a statement leaves the method.
\<close>

definition load_csv :: "'db conn \<Rightarrow> DbSync \<Rightarrow> string list list \<Rightarrow> ('db, unit) action" where
  "load_csv ex self file =
     and_then (execute ex (create_table_query self True)) (\<lambda>_.
     and_then (execute ex (copy_sql self file)) (\<lambda>_.
     and_then (if length (key_properties (stream_schema_message self)) > 0
               then execute ex (update_from_temp_table self)
               else pure_result (Inr ())) (\<lambda>_.
     and_then (execute ex (insert_from_temp_table self)) (\<lambda>_.
     execute ex (drop_temp_table self)))))"

definition get_table_columns :: "DbSync \<Rightarrow> string \<Rightarrow> stmt" where
  "get_table_columns self tname = SelectColumns (lower tname) (lower (schema_name self))"

definition add_column :: "'db conn \<Rightarrow> DbSync \<Rightarrow> string \<Rightarrow> string \<Rightarrow> ('db, unit) action" where
  "add_column ex self column stream_name =
     execute ex (case table_name self stream_name False of
                   Inl e \<Rightarrow> Inl e
                 | Inr t \<Rightarrow> Inr (AddColumn t column))"

definition drop_column :: "'db conn \<Rightarrow> DbSync \<Rightarrow> string \<Rightarrow> string \<Rightarrow> ('db, unit) action" where
  "drop_column ex self column_name stream_name =
     execute ex (case table_name self stream_name False of
                   Inl e \<Rightarrow> Inl e
                 | Inr t \<Rightarrow> Inr (DropColumn t column_name))"

text \<open>\<^verbatim>\<open>row[key]\<close> on a \<^verbatim>\<open>DictRow\<close>, and \<^verbatim>\<open>columns_dict[name]\<close>: a missing key raises
  \<^verbatim>\<open>KeyError\<close>.\<close>

definition lookup :: "(string \<times> 'v) list \<Rightarrow> string \<Rightarrow> error + 'v" where
  "lookup d key = (case map_of d key of None \<Rightarrow> Inl KeyError | Some v \<Rightarrow> Inr v)"

text \<open>
  The loop of \<open>update_columns\<close> that fills \<^verbatim>\<open>columns_to_replace\<close>. Each step computes
  \<^verbatim>\<open>col_type\<close> and then \<^verbatim>\<open>col_data_type = columns_dict[name_lower]['data_type'].lower()\<close>,
  and only after them the condition that starts with \<^verbatim>\<open>name_lower in columns_dict\<close>.
\<close>

fun columns_to_replace_loop ::
  "DbSync \<Rightarrow> (string \<times> dict_row) list \<Rightarrow> (string \<times> json) list \<Rightarrow> error + (string \<times> string) list"
where
  "columns_to_replace_loop self columns_dict [] = Inr []"
| "columns_to_replace_loop self columns_dict ((name, properties_schema) # rest) =
     (let name_lower = lower name
      in case column_type properties_schema (use_simple_column_type self) of
           Inl e \<Rightarrow> Inl e
         | Inr t \<Rightarrow>
             (let col_type = lower t
              in case lookup columns_dict name_lower of
                   Inl e \<Rightarrow> Inl e
                 | Inr column \<Rightarrow>
                     (case lookup column ''data_type'' of
                        Inl e \<Rightarrow> Inl e
                      | Inr dt \<Rightarrow>
                          (let col_data_type = lower dt
                           in case (if name_lower \<in> set (map fst columns_dict) \<and>
                                       col_data_type \<noteq> col_type \<and>
                                       \<not> (col_data_type = ''timestamp without time zone'' \<and>
                                          col_type = ''timestamp with time zone'')
                                    then (case column_clause name properties_schema
                                                 (use_simple_column_type self) of
                                            Inl e \<Rightarrow> Inl e
                                          | Inr clause \<Rightarrow> Inr [(safe_column_name name, clause)])
                                    else Inr []) of
                                Inl e \<Rightarrow> Inl e
                              | Inr appended \<Rightarrow>
                                  (case columns_to_replace_loop self columns_dict rest of
                                     Inl e \<Rightarrow> Inl e
                                   | Inr others \<Rightarrow> Inr (appended @ others))))))"

definition update_columns :: "'db conn \<Rightarrow> DbSync \<Rightarrow> ('db, unit) action" where
  "update_columns ex self =
     (let stream_name = stream (stream_schema_message self)
      in and_then (pure_result (inflect_name stream_name)) (\<lambda>table.
         and_then (query ex (get_table_columns self table)) (\<lambda>columns.
         and_then (pure_result
                     (map_raise (\<lambda>column. case lookup column ''column_name'' of
                                             Inl e \<Rightarrow> Inl e
                                           | Inr n \<Rightarrow> Inr (lower n, column)) columns)) (\<lambda>pairs.
         (let columns_dict = py_dict pairs
          in and_then (pure_result
                         (map_raise (\<lambda>(name, properties_schema).
                              column_clause name properties_schema (use_simple_column_type self))
                            (filter (\<lambda>(name, _). lower name \<notin> set (map fst columns_dict))
                               (flatten_schema_of self)))) (\<lambda>columns_to_add.
             and_then (for_each (\<lambda>column. add_column ex self column stream_name)
                         columns_to_add) (\<lambda>_.
             and_then (pure_result
                         (columns_to_replace_loop self columns_dict (flatten_schema_of self)))
               (\<lambda>columns_to_replace.
                  for_each (\<lambda>(column_name, column).
                              and_then (drop_column ex self column_name stream_name)
                                (\<lambda>_. add_column ex self column stream_name))
                    columns_to_replace))))))))"

text \<open>
  The steps of \<open>load_csv\<close> before the drop of the staging relation (create, copy,
  update when there are key properties, insert), to state what the drop depends on.
\<close>

definition load_csv_prior :: "'db conn \<Rightarrow> DbSync \<Rightarrow> string list list \<Rightarrow> ('db, unit) action" where
  "load_csv_prior ex self file =
     and_then (execute ex (create_table_query self True)) (\<lambda>_.
     and_then (execute ex (copy_sql self file)) (\<lambda>_.
     and_then (if length (key_properties (stream_schema_message self)) > 0
               then execute ex (update_from_temp_table self)
               else pure_result (Inr ())) (\<lambda>_.
     execute ex (insert_from_temp_table self))))"

fun is_drop_table :: "stmt \<Rightarrow> bool" where
  "is_drop_table (DropTable _) = True"
| "is_drop_table _ = False"

fun is_update :: "stmt \<Rightarrow> bool" where
  "is_update (UpdateFrom _ _ _ _) = True"
| "is_update _ = False"

fun is_add_column :: "stmt \<Rightarrow> bool" where
  "is_add_column (AddColumn _ _) = True"
| "is_add_column _ = False"

section \<open>A model of the database\<close>

text \<open>
  The database behind the connection is outside the module. This is a model of what
  it does with the statements above, after sections 4.4 and 4.5 of the specification
  and the meaning of the SQL: a relation has columns (name and data type, as
  \<^verbatim>\<open>information_schema.columns\<close> reports them) and rows (from column name to value).
  Relations are found by the name the statement writes, folded to lower case as the
  database folds an unquoted identifier. Constraints and null values are not modelled.
\<close>

record pg_table =
  columns_of :: "(string \<times> string) list"
  rows_of :: "dict_row list"

type_synonym pg_db = "string \<rightharpoonup> pg_table"

text \<open>The name inside \<^verbatim>\<open>"name"\<close>, and the two parts of a column clause \<^verbatim>\<open>"name" type\<close>.\<close>

definition unquote :: "string \<Rightarrow> string" where
  "unquote s =
     (case s of
        [] \<Rightarrow> []
      | c # rest \<Rightarrow> if c = CHR 0x22 then takeWhile (\<lambda>d. d \<noteq> CHR 0x22) rest else s)"

definition parse_clause :: "string \<Rightarrow> string \<times> string" where
  "parse_clause clause = (unquote clause, drop (length (unquote clause) + 3) clause)"

text \<open>Two rows agree on every column of \<open>names\<close>.\<close>

definition same_key :: "string list \<Rightarrow> dict_row \<Rightarrow> dict_row \<Rightarrow> bool" where
  "same_key names s t = (\<forall>k \<in> set names. map_of s (unquote k) = map_of t (unquote k))"

fun pg_exec :: "stmt \<Rightarrow> pg_db \<Rightarrow> error + (dict_row list \<times> pg_db)" where
  "pg_exec (CreateTable temp t clauses pk) db =
     (if db (lower t) \<noteq> None then Inl (DbError ''relation already exists'')
      else Inr ([], db(lower t \<mapsto> \<lparr> columns_of = map parse_clause clauses, rows_of = [] \<rparr>)))"
| "pg_exec (CopyExpert t cols file) db =
     (case db (lower t) of
        None \<Rightarrow> Inl (DbError ''relation does not exist'')
      | Some tab \<Rightarrow>
          if \<exists>row \<in> set file. length row \<noteq> length cols
          then Inl (DbError ''wrong number of fields'')
          else Inr ([], db(lower t \<mapsto>
                 tab\<lparr> rows_of := rows_of tab @ map (zip (map unquote cols)) file \<rparr>)))"
| "pg_exec (UpdateFrom t cols s names) db =
     (case (db (lower t), db (lower s)) of
        (Some tab, Some stab) \<Rightarrow>
          Inr ([], db(lower t \<mapsto>
            tab\<lparr> rows_of :=
                   map (\<lambda>r. case find (\<lambda>sr. same_key names sr r) (rows_of stab) of
                               None \<Rightarrow> r
                             | Some sr \<Rightarrow>
                                 AList.merge r (AList.restrict (set (map unquote cols)) sr))
                     (rows_of tab) \<rparr>))
      | _ \<Rightarrow> Inl (DbError ''relation does not exist''))"
| "pg_exec (InsertAll t cols s) db =
     (case (db (lower t), db (lower s)) of
        (Some tab, Some stab) \<Rightarrow>
          Inr ([], db(lower t \<mapsto> tab\<lparr> rows_of := rows_of tab @ rows_of stab \<rparr>))
      | _ \<Rightarrow> Inl (DbError ''relation does not exist''))"
| "pg_exec (InsertNew t cols s names) db =
     (case (db (lower t), db (lower s)) of
        (Some tab, Some stab) \<Rightarrow>
          Inr ([], db(lower t \<mapsto>
            tab\<lparr> rows_of := rows_of tab @
                   filter (\<lambda>sr. \<not> (\<exists>r \<in> set (rows_of tab). same_key names sr r))
                     (rows_of stab) \<rparr>))
      | _ \<Rightarrow> Inl (DbError ''relation does not exist''))"
| "pg_exec (DropTable t) db =
     (if db (lower t) = None then Inl (DbError ''relation does not exist'')
      else Inr ([], db(lower t := None)))"
| "pg_exec (AddColumn t clause) db =
     (case db (lower t) of
        None \<Rightarrow> Inl (DbError ''relation does not exist'')
      | Some tab \<Rightarrow>
          if fst (parse_clause clause) \<in> fst ` set (columns_of tab)
          then Inl (DbError ''column already exists'')
          else Inr ([], db(lower t \<mapsto>
                 tab\<lparr> columns_of := columns_of tab @ [parse_clause clause] \<rparr>)))"
| "pg_exec (DropColumn t column_name) db =
     (case db (lower t) of
        None \<Rightarrow> Inl (DbError ''relation does not exist'')
      | Some tab \<Rightarrow>
          if unquote column_name \<notin> fst ` set (columns_of tab)
          then Inl (DbError ''column does not exist'')
          else Inr ([], db(lower t \<mapsto>
                 tab\<lparr> columns_of := AList.delete (unquote column_name) (columns_of tab),
                      rows_of := map (AList.delete (unquote column_name)) (rows_of tab) \<rparr>)))"
| "pg_exec (SelectColumns t s) db =
     (case db (s @ ''.'' @ t) of
        None \<Rightarrow> Inr ([], db)
      | Some tab \<Rightarrow>
          Inr (map (\<lambda>(n, ty). [(''column_name'', n), (''data_type'', ty)]) (columns_of tab), db))"

section \<open>Example streams\<close>

text \<open>
  Two streams for the concrete cases below, as \<open>DbSync_init\<close> builds them: \<^verbatim>\<open>users\<close>
  with the columns \<^verbatim>\<open>id\<close> and \<^verbatim>\<open>name\<close>, and \<^verbatim>\<open>accounts\<close> with \<^verbatim>\<open>active\<close>, \<^verbatim>\<open>created_at\<close>
  and \<^verbatim>\<open>name\<close>; neither declares key properties.
\<close>

definition example_config :: config where
  "example_config = \<lparr> cfg_use_simple_column_type = None, cfg_schema = ''public'' \<rparr>"

definition users_message :: schema_message where
  "users_message =
     \<lparr> stream = ''users'',
       schema = JObj [(''properties'', JObj [
                  (''id'', JObj [(''type'', JList [JStr ''integer''])]),
                  (''name'', JObj [(''type'', JList [JStr ''null'', JStr ''string''])])])],
       key_properties = [] \<rparr>"

definition users_sync :: DbSync where
  "users_sync =
     \<lparr> target_config = example_config,
       use_simple_column_type = True,
       schema_name = ''public'',
       stream_schema_message = users_message,
       flatten_schema_of =
         [(''id'', JObj [(''type'', JList [JStr ''integer''])]),
          (''name'', JObj [(''type'', JList [JStr ''null'', JStr ''string''])])] \<rparr>"

definition accounts_message :: schema_message where
  "accounts_message =
     \<lparr> stream = ''accounts'',
       schema = JObj [(''properties'', JObj [
                  (''active'', JObj [(''type'', JList [JStr ''boolean''])]),
                  (''created_at'', JObj [(''type'', JList [JStr ''string'']),
                                        (''format'', JStr ''date-time'')]),
                  (''name'', JObj [(''type'', JList [JStr ''null'', JStr ''string''])])])],
       key_properties = [] \<rparr>"

definition accounts_sync :: DbSync where
  "accounts_sync =
     \<lparr> target_config = example_config,
       use_simple_column_type = True,
       schema_name = ''public'',
       stream_schema_message = accounts_message,
       flatten_schema_of =
         [(''active'', JObj [(''type'', JList [JStr ''boolean''])]),
          (''created_at'', JObj [(''type'', JList [JStr ''string'']),
                                (''format'', JStr ''date-time'')]),
          (''name'', JObj [(''type'', JList [JStr ''null'', JStr ''string''])])] \<rparr>"

text \<open>The live table \<^verbatim>\<open>public.users\<close> with the column \<^verbatim>\<open>id\<close> alone, and with both columns
  and one row.\<close>

definition users_db_id_only :: pg_db where
  "users_db_id_only =
     [''public.users'' \<mapsto> \<lparr> columns_of = [(''id'', ''bigint'')], rows_of = [] \<rparr>]"

definition users_db :: pg_db where
  "users_db =
     [''public.users'' \<mapsto>
        \<lparr> columns_of = [(''id'', ''bigint''), (''name'', ''character varying'')],
          rows_of = [[(''id'', ''1''), (''name'', ''ann'')]] \<rparr>]"

text \<open>The live table \<^verbatim>\<open>public.accounts\<close>: with \<^verbatim>\<open>active\<close> stored as a 64-bit integer and
  the column \<^verbatim>\<open>name\<close> not there yet; and with all three columns, \<^verbatim>\<open>created_at\<close> stored
  without time zone.\<close>

definition accounts_db_no_name :: pg_db where
  "accounts_db_no_name =
     [''public.accounts'' \<mapsto>
        \<lparr> columns_of = [(''active'', ''bigint''),
                         (''created_at'', ''timestamp with time zone'')],
          rows_of = [] \<rparr>]"

definition accounts_db :: pg_db where
  "accounts_db =
     [''public.accounts'' \<mapsto>
        \<lparr> columns_of = [(''active'', ''bigint''),
                         (''created_at'', ''timestamp without time zone''),
                         (''name'', ''character varying'')],
          rows_of = [] \<rparr>]"

section \<open>Replacement of live columns\<close>

text \<open>
  The condition under which \<open>update_columns\<close> replaces a live column: the stored type
  differs from the desired one, the change from \<^verbatim>\<open>timestamp without time zone\<close> to
  \<^verbatim>\<open>timestamp with time zone\<close> apart.  \<open>live_row\<close> is the row that the catalogue query
  returns for a column of the database model.
\<close>

definition needs_replace :: "string \<Rightarrow> string \<Rightarrow> bool" where
  "needs_replace stored desired =
     (stored \<noteq> desired \<and>
      \<not> (stored = ''timestamp without time zone'' \<and> desired = ''timestamp with time zone''))"

definition live_row :: "string \<times> string \<Rightarrow> dict_row" where
  "live_row c = [(''column_name'', fst c), (''data_type'', snd c)]"

text \<open>
  What the pair of statements \<^verbatim>\<open>DROP COLUMN\<close>, \<^verbatim>\<open>ADD COLUMN\<close> does to a table of the
  database model, and the desired columns that \<open>update_columns\<close> replaces, given the
  live columns.
\<close>

definition replace_column :: "string \<Rightarrow> string \<Rightarrow> pg_table \<Rightarrow> pg_table" where
  "replace_column n ty tab =
     tab\<lparr> rows_of := map (AList.delete n) (rows_of tab),
          columns_of := AList.delete n (columns_of tab) @ [(n, ty)] \<rparr>"

definition planned :: "(string \<times> string) list \<Rightarrow> (string \<times> string) list \<Rightarrow> (string \<times> string) list"
where
  "planned cols desired =
     filter (\<lambda>(n, ty). case map_of cols n of
                          None \<Rightarrow> False
                        | Some stored \<Rightarrow> needs_replace stored ty) desired"

section \<open>Properties of the type generalisation\<close>

lemma most_general_loop_result:
  "most_general_loop types xs (b, bt) = (b', bt') \<Longrightarrow>
     (b' = b \<and> bt' = bt \<and> (\<forall>t \<in> set xs. cast_score types t \<le> b)) \<or>
     (\<exists>ys w zs. xs = ys @ w # zs \<and> bt' = Some w \<and> b' = cast_score types w \<and> b < cast_score types w \<and>
        (\<forall>t \<in> set ys. cast_score types t < cast_score types w) \<and>
        (\<forall>t \<in> set zs. cast_score types t \<le> cast_score types w))"
proof (induction xs arbitrary: b bt)
  case Nil
  then show ?case by simp
next
  case (Cons t ts)
  show ?case
  proof (cases "cast_score types t > b")
    case True
    with Cons.prems have run: "most_general_loop types ts (cast_score types t, Some t) = (b', bt')"
      by (simp add: cast_score_def Let_def)
    from Cons.IH [OF run] show ?thesis
    proof
      assume "b' = cast_score types t \<and> bt' = Some t \<and> (\<forall>u \<in> set ts. cast_score types u \<le> cast_score types t)"
      with True have "t # ts = [] @ t # ts \<and> bt' = Some t \<and> b' = cast_score types t \<and> b < cast_score types t \<and>
        (\<forall>u \<in> set []. cast_score types u < cast_score types t) \<and>
        (\<forall>u \<in> set ts. cast_score types u \<le> cast_score types t)" by simp
      then show ?thesis by blast
    next
      assume "\<exists>ys w zs. ts = ys @ w # zs \<and> bt' = Some w \<and> b' = cast_score types w \<and>
        cast_score types t < cast_score types w \<and>
        (\<forall>u \<in> set ys. cast_score types u < cast_score types w) \<and>
        (\<forall>u \<in> set zs. cast_score types u \<le> cast_score types w)"
      then obtain ys w zs where h: "ts = ys @ w # zs" "bt' = Some w" "b' = cast_score types w"
        "cast_score types t < cast_score types w" "\<forall>u \<in> set ys. cast_score types u < cast_score types w"
        "\<forall>u \<in> set zs. cast_score types u \<le> cast_score types w" by blast
      with True have "t # ts = (t # ys) @ w # zs \<and> bt' = Some w \<and> b' = cast_score types w \<and>
        b < cast_score types w \<and> (\<forall>u \<in> set (t # ys). cast_score types u < cast_score types w) \<and>
        (\<forall>u \<in> set zs. cast_score types u \<le> cast_score types w)" by simp
      then show ?thesis by blast
    qed
  next
    case False
    with Cons.prems have run: "most_general_loop types ts (b, bt) = (b', bt')"
      by (simp add: cast_score_def Let_def)
    from Cons.IH [OF run] show ?thesis
    proof
      assume "b' = b \<and> bt' = bt \<and> (\<forall>u \<in> set ts. cast_score types u \<le> b)"
      with False show ?thesis by simp
    next
      assume "\<exists>ys w zs. ts = ys @ w # zs \<and> bt' = Some w \<and> b' = cast_score types w \<and>
        b < cast_score types w \<and>
        (\<forall>u \<in> set ys. cast_score types u < cast_score types w) \<and>
        (\<forall>u \<in> set zs. cast_score types u \<le> cast_score types w)"
      then obtain ys w zs where h: "ts = ys @ w # zs" "bt' = Some w" "b' = cast_score types w"
        "b < cast_score types w" "\<forall>u \<in> set ys. cast_score types u < cast_score types w"
        "\<forall>u \<in> set zs. cast_score types u \<le> cast_score types w" by blast
      with False have "t # ts = (t # ys) @ w # zs \<and> bt' = Some w \<and> b' = cast_score types w \<and>
        b < cast_score types w \<and> (\<forall>u \<in> set (t # ys). cast_score types u < cast_score types w) \<and>
        (\<forall>u \<in> set zs. cast_score types u \<le> cast_score types w)" by simp
      then show ?thesis by blast
    qed
  qed
qed

lemma finite_usable: "finite (get_usable_types types)"
  by (simp add: get_usable_types_def JSONSCHEMA_TYPES_def)

lemma usable_cases:
  "t \<in> get_usable_types types \<Longrightarrow>
     t \<in> {''array'', ''boolean'', ''integer'', ''number'', ''object'', ''string''}"
  by (auto simp: get_usable_types_def JSONSCHEMA_TYPES_def)

lemma castable_values:
  "get_castable_types ''array'' = {''array''}"
  "get_castable_types ''boolean'' = {''boolean''}"
  "get_castable_types ''integer'' = {''integer'', ''boolean''}"
  "get_castable_types ''number'' = {''number'', ''integer'', ''boolean''}"
  "get_castable_types ''object'' = {''object'', ''array''}"
  "get_castable_types ''string'' =
     {''string'', ''number'', ''integer'', ''object'', ''array'', ''boolean''}"
  by (auto simp: get_castable_types_def get_usable_types_def JSONSCHEMA_TYPES_def
      JSONSCHEMA_TYPE_CAN_CAST_TO_def)

lemma castable_self: "t \<in> get_usable_types types \<Longrightarrow> t \<in> get_castable_types t"
  by (auto dest!: usable_cases simp: castable_values)

lemma castable_antisym:
  "t \<in> get_usable_types types \<Longrightarrow> w \<in> get_usable_types types \<Longrightarrow>
   t \<in> get_castable_types w \<Longrightarrow> w \<in> get_castable_types t \<Longrightarrow> t = w"
  by (auto dest!: usable_cases simp: castable_values)

lemma most_general_winner:
  assumes ne: "get_usable_types types \<noteq> {}"
  shows "\<exists>w \<in> get_usable_types types.
           (\<forall>t \<in> get_usable_types types.
              cast_score (get_usable_types types) t \<le> cast_score (get_usable_types types) w) \<and>
           (\<forall>t \<in> get_usable_types types.
              cast_score (get_usable_types types) t = cast_score (get_usable_types types) w \<longrightarrow> w \<le> t) \<and>
           most_general_type types =
             (if get_usable_types types \<subseteq> get_castable_types w then w else ''string'')"
proof -
  let ?U = "get_usable_types types"
  let ?xs = "sorted_list_of_set ?U"
  have fin: "finite ?U" by (rule finite_usable)
  have set_xs: "set ?xs = ?U" using fin by simp
  have srt: "sorted ?xs" and dst: "distinct ?xs" by simp_all
  obtain b' bt' where run: "most_general_loop ?U ?xs (0, None) = (b', bt')"
    by (cases "most_general_loop ?U ?xs (0, None)") 
  from ne obtain u where u: "u \<in> ?U" by blast
  have pos: "0 < cast_score ?U t" if "t \<in> ?U" for t
  proof -
    have "t \<in> get_castable_types t \<inter> ?U" using that castable_self by blast
    moreover have "finite (get_castable_types t \<inter> ?U)" using fin by simp
    ultimately show ?thesis unfolding cast_score_def using card_gt_0_iff by blast
  qed
  from most_general_loop_result [OF run]
  obtain ys w zs where h: "?xs = ys @ w # zs" "bt' = Some w"
      "\<forall>t \<in> set ys. cast_score ?U t < cast_score ?U w" "\<forall>t \<in> set zs. cast_score ?U t \<le> cast_score ?U w"
    using pos [OF u] u set_xs by fastforce
  have w_in: "w \<in> ?U" using h(1) set_xs by (metis in_set_conv_decomp)
  have mx: "\<forall>t \<in> ?U. cast_score ?U t \<le> cast_score ?U w"
  proof
    fix t assume "t \<in> ?U"
    then have "t \<in> set ys \<or> t = w \<or> t \<in> set zs" using set_xs h(1) by (metis Un_iff set_ConsD set_append)
    then show "cast_score ?U t \<le> cast_score ?U w" using h(3,4) by (auto simp: less_imp_le)
  qed
  have fst: "\<forall>t \<in> ?U. cast_score ?U t = cast_score ?U w \<longrightarrow> w \<le> t"
  proof (intro ballI impI)
    fix t assume t: "t \<in> ?U" and eq: "cast_score ?U t = cast_score ?U w"
    from t have "t \<in> set ys \<or> t = w \<or> t \<in> set zs" using set_xs h(1) by (metis Un_iff set_ConsD set_append)
    moreover have "t \<notin> set ys" using h(3) eq by auto
    moreover have "\<forall>z \<in> set zs. w \<le> z" using srt h(1) by (simp add: sorted_append)
    ultimately show "w \<le> t" by auto
  qed
  have "types \<noteq> {}" using ne by (auto simp: get_usable_types_def)
  then have "most_general_type types = (if ?U \<subseteq> get_castable_types w then w else ''string'')"
    using run h(2) by (simp add: most_general_type_def Let_def)
  with w_in mx fst show ?thesis by blast
qed

lemma most_general_cover:
  assumes t: "t \<in> get_usable_types types" and cov: "get_usable_types types \<subseteq> get_castable_types t"
  shows "most_general_type types = t"
proof -
  let ?U = "get_usable_types types"
  have fin: "finite ?U" by (rule finite_usable)
  from t have ne: "?U \<noteq> {}" by blast
  from most_general_winner [OF ne] obtain w where w: "w \<in> ?U"
    "\<forall>t \<in> ?U. cast_score ?U t \<le> cast_score ?U w"
    "most_general_type types = (if ?U \<subseteq> get_castable_types w then w else ''string'')" by blast
  have "cast_score ?U t = card ?U" using cov by (simp add: cast_score_def Int_absorb1)
  with w(2) t have "card ?U \<le> cast_score ?U w" by metis
  then have "card ?U \<le> card (get_castable_types w \<inter> ?U)" by (simp add: cast_score_def)
  moreover have "get_castable_types w \<inter> ?U \<subseteq> ?U" by blast
  ultimately have "get_castable_types w \<inter> ?U = ?U" using fin by (simp add: card_seteq)
  then have covw: "?U \<subseteq> get_castable_types w" by blast
  then have "t \<in> get_castable_types w" "w \<in> get_castable_types t" using t w(1) cov by auto
  then have "t = w" using castable_antisym t w(1) by blast
  with w(3) covw show ?thesis by simp
qed

lemma most_general_no_cover:
  assumes "\<forall>t \<in> get_usable_types types. \<not> get_usable_types types \<subseteq> get_castable_types t"
  shows "most_general_type types = ''string''"
proof (cases "get_usable_types types = {}")
  case True
  then show ?thesis using assms 
    by (simp add: most_general_type_def Let_def)
next
  case False
  from most_general_winner [OF False] assms show ?thesis by auto
qed

lemma most_general_null: "most_general_type types = most_general_type (types - {''null''})"
proof (cases "types - {''null''} = {}")
  case True
  then have "get_usable_types types = {}" by (auto simp: get_usable_types_def)
  with True show ?thesis by (simp add: most_general_type_def Let_def)
next
  case False
  then have "types \<noteq> {}" by auto
  moreover have "get_usable_types (types - {''null''}) = get_usable_types types"
    by (auto simp: get_usable_types_def)
  ultimately show ?thesis using False by (simp add: most_general_type_def)
qed

text \<open>
  Claim C4. For every set of observed kinds, \<open>most_general_type\<close> discards null (the
  result is that of the set without it); it returns \<open>string\<close> when no usable kind is
  left; otherwise there is a winner \<open>w\<close> among the usable kinds, of the highest score
  and the first in sorted order among the kinds of that score, and the result is \<open>w\<close>
  when the castable set of \<open>w\<close> covers every usable kind and \<open>string\<close> when it does
  not. An observed kind that covers all of them is the result, and the result is
  \<open>string\<close> when no observed kind covers them. In particular {integer, boolean} gives
  integer, {string, integer} gives string and the empty set gives string.
\<close>

theorem most_general_type_spec:
  "most_general_type types = most_general_type (types - {''null''}) \<and>
   (get_usable_types types = {} \<longrightarrow> most_general_type types = ''string'') \<and>
   (get_usable_types types \<noteq> {} \<longrightarrow>
      (\<exists>w \<in> get_usable_types types.
          (\<forall>t \<in> get_usable_types types.
             cast_score (get_usable_types types) t \<le> cast_score (get_usable_types types) w) \<and>
          (\<forall>t \<in> get_usable_types types.
             cast_score (get_usable_types types) t = cast_score (get_usable_types types) w
               \<longrightarrow> w \<le> t) \<and>
          most_general_type types =
            (if get_usable_types types \<subseteq> get_castable_types w then w else ''string''))) \<and>
   (\<forall>t \<in> get_usable_types types.
      get_usable_types types \<subseteq> get_castable_types t \<longrightarrow> most_general_type types = t) \<and>
   ((\<forall>t \<in> get_usable_types types. \<not> get_usable_types types \<subseteq> get_castable_types t)
      \<longrightarrow> most_general_type types = ''string'') \<and>
   most_general_type {''integer'', ''boolean''} = ''integer'' \<and>
   most_general_type {''string'', ''integer''} = ''string'' \<and>
   most_general_type {} = ''string''"
proof -
  have empty: "get_usable_types types = {} \<longrightarrow> most_general_type types = ''string''"
    using most_general_no_cover [of types] by simp
  have winner: "get_usable_types types \<noteq> {} \<longrightarrow>
      (\<exists>w \<in> get_usable_types types.
          (\<forall>t \<in> get_usable_types types.
             cast_score (get_usable_types types) t \<le> cast_score (get_usable_types types) w) \<and>
          (\<forall>t \<in> get_usable_types types.
             cast_score (get_usable_types types) t = cast_score (get_usable_types types) w
               \<longrightarrow> w \<le> t) \<and>
          most_general_type types =
            (if get_usable_types types \<subseteq> get_castable_types w then w else ''string''))"
    using most_general_winner [of types] by blast
  have cover: "\<forall>t \<in> get_usable_types types.
      get_usable_types types \<subseteq> get_castable_types t \<longrightarrow> most_general_type types = t"
    using most_general_cover [of _ types] by blast
  have nocover: "(\<forall>t \<in> get_usable_types types.
      \<not> get_usable_types types \<subseteq> get_castable_types t) \<longrightarrow> most_general_type types = ''string''"
    using most_general_no_cover [of types] by blast
  have e1: "most_general_type {''integer'', ''boolean''} = ''integer''" by code_simp
  have e2: "most_general_type {''string'', ''integer''} = ''string''" by code_simp
  have e3: "most_general_type {} = ''string''" by (simp add: most_general_type_def)
  from most_general_null [of types] empty winner cover nocover e1 e2 e3 show ?thesis
    by (intro conjI)
qed

theorem most_general_type_spec_witness:
  "''number'' \<in> get_usable_types {''null'', ''number'', ''boolean''} \<and>
   get_usable_types {''null'', ''number'', ''boolean''} \<subseteq> get_castable_types ''number'' \<and>
   most_general_type {''null'', ''number'', ''boolean''} = ''number'' \<and>
   get_usable_types {''null''} = {} \<and>
   most_general_type {''null''} = ''string''"
proof -
  have a: "''number'' \<in> get_usable_types {''null'', ''number'', ''boolean''}"
    by (simp add: get_usable_types_def JSONSCHEMA_TYPES_def)
  have b: "get_usable_types {''null'', ''number'', ''boolean''} \<subseteq> get_castable_types ''number''"
    by (auto simp: castable_values get_usable_types_def)
  have c: "get_usable_types {''null''} = {}"
    by (simp add: get_usable_types_def)
  from a b most_general_type_spec [of "{''null'', ''number'', ''boolean''}"]
  have d: "most_general_type {''null'', ''number'', ''boolean''} = ''number''" by blast
  from c most_general_type_spec [of "{''null''}"]
  have e: "most_general_type {''null''} = ''string''" by blast
  from a b c d e show ?thesis by (intro conjI)
qed

section \<open>Properties of the column names\<close>

lemma sub_acronym_word_Nil: "sub_acronym_word s = [] \<longleftrightarrow> s = []"
  by (induction s rule: sub_acronym_word.induct) auto

lemma sub_word_boundary_Nil: "sub_word_boundary s = [] \<longleftrightarrow> s = []"
  by (induction s rule: sub_word_boundary.induct) auto

lemma underscore_acronym_Nil: "underscore_acronym s = [] \<longleftrightarrow> s = []"
  by (induction s rule: underscore_acronym.induct) auto

lemma underscore_boundary_Nil: "underscore_boundary s = [] \<longleftrightarrow> s = []"
  by (induction s rule: underscore_boundary.induct) auto

lemma underscore_Nil: "underscore s = [] \<longleftrightarrow> s = []"
  by (simp add: underscore_def Let_def lower_def underscore_acronym_Nil underscore_boundary_Nil)

lemma inflect_name_Inr:
  assumes "name \<noteq> []"
  shows "\<exists>r. inflect_name name = Inr r \<and> r \<noteq> []"
proof -
  let ?n = "sub_word_boundary (sub_acronym_word (sub_non_alnum name))"
  have "?n \<noteq> []" using assms
    by (simp add: sub_word_boundary_Nil sub_acronym_word_Nil sub_non_alnum_def)
  then obtain c cs where n: "?n = c # cs" by (cases ?n) auto
  then show ?thesis by (simp add: inflect_name_def Let_def underscore_Nil)
qed

lemma inflect_name_empty: "inflect_name [] = Inl IndexError"
  by (simp add: inflect_name_def sub_non_alnum_def)

lemma map_raise_Inr:
  "(\<forall>x \<in> set xs. \<exists>y. f x = Inr y) \<Longrightarrow> \<exists>ys. map_raise f xs = Inr ys \<and> length ys = length xs"
  by (induction xs) auto

lemma flatten_key_loop_length:
  "length (flatten_key_loop sep ys i) = length ys"
proof (induction sep ys i rule: flatten_key_loop.induct)
  case (1 sep ys i)
  then show ?case by (subst flatten_key_loop.simps) simp
qed

lemma flatten_key_loop_result:
  "length (join sep (flatten_key_loop sep ys i)) < 63 \<or>
   flatten_key_loop sep ys i = take i ys @ map reduce_key (drop i ys)"
proof (induction sep ys i rule: flatten_key_loop.induct)
  case (1 sep ys i)
  show ?case
  proof (cases "length (join sep ys) \<ge> 63 \<and> i < length ys")
    case True
    let ?ys' = "ys[i := reduce_key (ys ! i)]"
    have step: "flatten_key_loop sep ys i = flatten_key_loop sep ?ys' (i + 1)"
      using True by (subst flatten_key_loop.simps) simp
    have "take (i + 1) ?ys' @ map reduce_key (drop (i + 1) ?ys')
            = take i ys @ map reduce_key (drop i ys)"
      using True by (simp add: take_Suc_conv_app_nth Cons_nth_drop_Suc [symmetric])
    with "1.IH" [OF True] step show ?thesis by auto
  next
    case False
    then have stop: "flatten_key_loop sep ys i = ys"
      by (subst flatten_key_loop.simps) auto
    from False show ?thesis unfolding stop by auto
  qed
qed

lemma length_join:
  "length (join sep xs) = sum_list (map length xs) + (length xs - 1) * length sep"
  by (induction sep xs rule: join.induct) auto

lemma length_camelize_rest: "length (camelize_rest s) \<le> length s"
  by (induction s rule: camelize_rest.induct) auto

lemma length_camelize: "length (camelize s) \<le> length s"
proof (cases s)
  case Nil
  then show ?thesis by (simp add: camelize_def)
next
  case (Cons c rest)
  then show ?thesis
    using length_camelize_rest [of rest] length_camelize_rest [of "c # rest"]
    by (auto simp add: camelize_def simp del: camelize_rest.simps)
qed

lemma length_reduce_key: "length (reduce_key seg) \<le> length seg"
proof -
  have "length (filter (\<lambda>c. \<not> is_lower c) (camelize seg)) \<le> length (camelize seg)"
    by (rule length_filter_le)
  with length_camelize [of seg] have "length (filter (\<lambda>c. \<not> is_lower c) (camelize seg)) \<le> length seg"
    by linarith
  then show ?thesis
    by (simp add: reduce_key_def Let_def lower_def)
qed

lemma sum_list_length_reduce:
  "sum_list (map length (map reduce_key xs)) \<le> sum_list (map length xs)"
  by (induction xs) (auto intro: add_mono length_reduce_key)

lemma length_join_reduce:
  "length (join sep (take i ys @ map reduce_key (drop i ys))) \<le> length (join sep ys)"
proof -
  have "sum_list (map length (take i ys @ map reduce_key (drop i ys)))
          = sum_list (map length (take i ys)) + sum_list (map length (map reduce_key (drop i ys)))"
    by simp
  also have "\<dots> \<le> sum_list (map length (take i ys)) + sum_list (map length (drop i ys))"
    using sum_list_length_reduce [of "drop i ys"] by simp
  also have "\<dots> = sum_list (map length (take i ys @ drop i ys))"
    by (simp del: append_take_drop_id)
  finally have "sum_list (map length (take i ys @ map reduce_key (drop i ys)))
                  \<le> sum_list (map length ys)" by simp
  moreover have "length (take i ys @ map reduce_key (drop i ys)) = length ys" by simp
  ultimately show ?thesis unfolding length_join by simp
qed

lemma flatten_key_loop_lower_bound:
  "length (join sep (take i ys @ map reduce_key (drop i ys)))
     \<le> length (join sep (flatten_key_loop sep ys i))"
proof (induction sep ys i rule: flatten_key_loop.induct)
  case (1 sep ys i)
  show ?case
  proof (cases "length (join sep ys) \<ge> 63 \<and> i < length ys")
    case True
    let ?ys' = "ys[i := reduce_key (ys ! i)]"
    have step: "flatten_key_loop sep ys i = flatten_key_loop sep ?ys' (i + 1)"
      using True by (subst flatten_key_loop.simps) simp
    have "take (i + 1) ?ys' @ map reduce_key (drop (i + 1) ?ys')
            = take i ys @ map reduce_key (drop i ys)"
      using True by (simp add: take_Suc_conv_app_nth Cons_nth_drop_Suc [symmetric])
    with "1.IH" [OF True] step show ?thesis by simp
  next
    case False
    then have stop: "flatten_key_loop sep ys i = ys"
      by (subst flatten_key_loop.simps) auto
    show ?thesis unfolding stop by (rule length_join_reduce)
  qed
qed

text \<open>
  Claim C2, as the code has it. The module has no error for an over-long name. For
  every path of non-empty segments \<open>flatten_key\<close> returns a name: when the name joined
  from the abbreviations of all segments is still 63 characters or longer, that
  over-long name is what it returns; otherwise the name it returns is shorter than 63
  characters.
\<close>

theorem flatten_key_length:
  assumes "\<forall>n \<in> set (parent_key @ [k]). n \<noteq> []"
  shows "\<exists>inflected_key name.
           map_raise inflect_name (parent_key @ [k]) = Inr inflected_key \<and>
           flatten_key k parent_key sep = Inr name \<and>
           (length (join sep (map reduce_key inflected_key)) \<ge> 63 \<longrightarrow>
              name = join sep (map reduce_key inflected_key)) \<and>
           (length (join sep (map reduce_key inflected_key)) < 63 \<longrightarrow> length name < 63)"
proof -
  from assms have "\<forall>n \<in> set (parent_key @ [k]). \<exists>r. inflect_name n = Inr r"
    using inflect_name_Inr by blast
  then obtain ys where ys: "map_raise inflect_name (parent_key @ [k]) = Inr ys"
    using map_raise_Inr [of "parent_key @ [k]" inflect_name] by blast
  let ?name = "join sep (flatten_key_loop sep ys 0)"
  have fk: "flatten_key k parent_key sep = Inr ?name"
    using ys by (simp add: flatten_key_def)
  have alt: "length ?name < 63 \<or> flatten_key_loop sep ys 0 = map reduce_key ys"
    using flatten_key_loop_result [of sep ys 0] by simp
  have low: "length (join sep (map reduce_key ys)) \<le> length ?name"
    using flatten_key_loop_lower_bound [of sep 0 ys] by simp
  have a: "length (join sep (map reduce_key ys)) \<ge> 63 \<longrightarrow> ?name = join sep (map reduce_key ys)"
    using alt low by auto
  have b: "length (join sep (map reduce_key ys)) < 63 \<longrightarrow> length ?name < 63"
    using alt by auto
  from ys fk a b show ?thesis by blast
qed

theorem flatten_key_length_witness:
  "''orderLines'' \<noteq> [] \<and> ''unitPrice'' \<noteq> [] \<and>
   flatten_key ''unitPrice'' [''orderLines''] ''__'' = Inr ''order_lines__unit_price'' \<and>
   length ''order_lines__unit_price'' < 63"
proof -
  have h: "\<forall>n \<in> set ([''orderLines''] @ [''unitPrice'']). n \<noteq> []" by simp
  have v: "flatten_key ''unitPrice'' [''orderLines''] ''__'' = Inr ''order_lines__unit_price''"
    by code_simp
  from flatten_key_length [OF h, of "''__''"] v
  have "length ''order_lines__unit_price'' < 63" by simp
  with v show ?thesis by simp
qed

text \<open>
  A path of 22 segments \<^verbatim>\<open>a\<close>: every segment abbreviates to itself, the joined name has
  64 characters, and \<open>flatten_key\<close> returns it.
\<close>

theorem flatten_key_overlong_counterexample:
  "flatten_key ''a'' (replicate 21 ''a'') ''__'' =
     Inr ''a__a__a__a__a__a__a__a__a__a__a__a__a__a__a__a__a__a__a__a__a__a'' \<and>
   length ''a__a__a__a__a__a__a__a__a__a__a__a__a__a__a__a__a__a__a__a__a__a'' = 64"
  by code_simp

text \<open>
  Claim C10. \<open>inflect_name\<close> reads the first character of the name without a guard: on
  the empty name it raises \<^verbatim>\<open>IndexError\<close>; on a non-empty name the substitutions leave
  a non-empty string, the index is in range, and the name returned is not empty.
\<close>

theorem inflect_name_first_char:
  "inflect_name [] = Inl IndexError \<and>
   (name \<noteq> [] \<longrightarrow> (\<exists>r. inflect_name name = Inr r \<and> r \<noteq> []))"
  using inflect_name_empty inflect_name_Inr by blast

theorem inflect_name_first_char_witness:
  "''9Lives'' \<noteq> [] \<and> inflect_name ''9Lives'' = Inr ''_9_lives'' \<and> ''_9_lives'' \<noteq> []"
proof -
  have v: "inflect_name ''9Lives'' = Inr ''_9_lives''" by code_simp
  from inflect_name_first_char [of "''9Lives''"] v have "''_9_lives'' \<noteq> []" by blast
  with v show ?thesis by simp
qed

section \<open>Properties of the flattening\<close>

lemma py_dict_fold_map_of:
  "map_of (fold (\<lambda>(k, v) d. AList.update k v d) items acc) = map_of acc ++ map_of (rev items)"
proof (induction items arbitrary: acc)
  case Nil
  then show ?case by simp
next
  case (Cons a items)
  obtain k v where a: "a = (k, v)" by (cases a)
  have "map_of (fold (\<lambda>(k, v) d. AList.update k v d) (a # items) acc)
          = map_of (AList.update k v acc) ++ map_of (rev items)"
    using Cons.IH [of "AList.update k v acc"] a by simp
  also have "\<dots> = (map_of acc)(k \<mapsto> v) ++ map_of (rev items)"
    by (simp add: update_conv')
  also have "\<dots> = map_of acc ++ map_of (rev (a # items))"
    using a by (simp add: map_add_upd_left fun_eq_iff map_add_def split: option.splits)
  finally show ?case .
qed

lemma py_dict_map_of: "map_of (py_dict items) = map_of (rev items)"
  by (simp add: py_dict_def py_dict_fold_map_of)

lemma py_dict_fold_distinct:
  "distinct (map fst acc) \<Longrightarrow>
     distinct (map fst (fold (\<lambda>(k, v) d. AList.update k v d) items acc))"
  by (induction items arbitrary: acc) (auto simp: distinct_update)

lemma py_dict_distinct: "distinct (map fst (py_dict items))"
  by (simp add: py_dict_def py_dict_fold_distinct)

lemma update_fresh: "k \<notin> fst ` set al \<Longrightarrow> AList.update k v al = al @ [(k, v)]"
  by (induction al) auto

lemma py_dict_fold_id:
  "distinct (map fst (acc @ items)) \<Longrightarrow>
     fold (\<lambda>(k, v) d. AList.update k v d) items acc = acc @ items"
proof (induction items arbitrary: acc)
  case Nil
  then show ?case by simp
next
  case (Cons a items)
  obtain k v where a: "a = (k, v)" by (cases a)
  have fresh: "k \<notin> fst ` set acc" using Cons.prems a by auto
  have "distinct (map fst ((acc @ [(k, v)]) @ items))" using Cons.prems a by simp
  from Cons.IH [OF this] show ?case using a fresh by (simp add: update_fresh)
qed

lemma py_dict_id: "distinct (map fst items) \<Longrightarrow> py_dict items = items"
  using py_dict_fold_id [of "[]" items] by (simp add: py_dict_def)

lemma py_dict_keys: "fst ` set (py_dict items) = fst ` set items"
proof -
  have "dom (map_of (py_dict items)) = dom (map_of (rev items))"
    by (simp add: py_dict_map_of)
  then show ?thesis by (simp add: dom_map_of_conv_image_fst)
qed

lemma flatten_record_items_registers:
  "flatten_record_items dumps kvs parent_key sep = Inr items \<Longrightarrow> (k, v) \<in> set kvs \<Longrightarrow>
     \<exists>new_key. flatten_key k parent_key sep = Inr new_key \<and>
       (case v of
          JObj _ \<Rightarrow>
            (\<exists>sub. flatten_record dumps v (parent_key @ [k]) sep = Inr sub \<and>
                   set sub \<subseteq> set items) \<and>
            (new_key, JStr (dumps v)) \<in> set items
        | JList _ \<Rightarrow> (new_key, JStr (dumps v)) \<in> set items
        | _ \<Rightarrow> (new_key, v) \<in> set items)"
proof (induction kvs arbitrary: items)
  case Nil
  then show ?case by simp
next
  case (Cons a kvs)
  obtain k' v' where a: "a = (k', v')" by (cases a)
  from Cons.prems(1) a obtain new_key' appended more where
    nk: "flatten_key k' parent_key sep = Inr new_key'" and
    app: "(case v' of
             JObj _ \<Rightarrow>
               (case flatten_record dumps v' (parent_key @ [k']) sep of
                  Inl e \<Rightarrow> Inl e
                | Inr sub \<Rightarrow> Inr (sub @ [(new_key', JStr (dumps v'))]))
           | JList _ \<Rightarrow> Inr [(new_key', JStr (dumps v'))]
           | _ \<Rightarrow> Inr [(new_key', v')]) = Inr appended" and
    more: "flatten_record_items dumps kvs parent_key sep = Inr more" and
    items: "items = appended @ more"
    by (auto simp del: flatten_record.simps split: sum.splits)
  show ?case
  proof (cases "(k, v) = (k', v')")
    case True
    then have kv: "k = k'" "v = v'" by simp_all
    show ?thesis
      using nk app items unfolding kv
      by (cases v') (auto simp del: flatten_record.simps split: sum.splits)
  next
    case False
    with Cons.prems(2) a have "(k, v) \<in> set kvs" by auto
    from Cons.IH [OF more this] obtain new_key where
      h: "flatten_key k parent_key sep = Inr new_key"
         "(case v of
            JObj _ \<Rightarrow>
              (\<exists>sub. flatten_record dumps v (parent_key @ [k]) sep = Inr sub \<and>
                     set sub \<subseteq> set more) \<and>
              (new_key, JStr (dumps v)) \<in> set more
          | JList _ \<Rightarrow> (new_key, JStr (dumps v)) \<in> set more
          | _ \<Rightarrow> (new_key, v) \<in> set more)" by blast
    have sub: "set more \<subseteq> set items" using items by auto
    from h(2) sub have
         "(case v of
            JObj _ \<Rightarrow>
              (\<exists>sub. flatten_record dumps v (parent_key @ [k]) sep = Inr sub \<and>
                     set sub \<subseteq> set items) \<and>
              (new_key, JStr (dumps v)) \<in> set items
          | JList _ \<Rightarrow> (new_key, JStr (dumps v)) \<in> set items
          | _ \<Rightarrow> (new_key, v) \<in> set items)"
      by (cases v) (auto simp del: flatten_record.simps)
    with h(1) show ?thesis by blast
  qed
qed

text \<open>
  Claim C8, as the code has it. When \<open>flatten_record\<close> returns for a record, every
  entry \<open>(k, v)\<close> of the record is registered in the list \<open>items\<close> of the loop: for a
  mapping \<open>v\<close>, every entry of the flattened children and the pair of the mapping's own
  name with \<^verbatim>\<open>json.dumps(v)\<close>; for a list \<open>v\<close>, the single pair of its name with
  \<^verbatim>\<open>json.dumps(v)\<close> and nothing of its elements; for any other value the value itself.
  The result is \<^verbatim>\<open>dict(items)\<close>: its keys are the registered names, the value of a name
  is that of its last registration, and it holds exactly the registered pairs when no
  two of them share a name.
\<close>

theorem flatten_record_registers:
  assumes "flatten_record dumps (JObj kvs) parent_key sep = Inr r" and "(k, v) \<in> set kvs"
  shows "\<exists>new_key items.
           flatten_key k parent_key sep = Inr new_key \<and>
           flatten_record_items dumps kvs parent_key sep = Inr items \<and>
           r = py_dict items \<and>
           fst ` set r = fst ` set items \<and>
           map_of r = map_of (rev items) \<and>
           (distinct (map fst items) \<longrightarrow> r = items) \<and>
           (case v of
              JObj _ \<Rightarrow>
                (\<exists>sub. flatten_record dumps v (parent_key @ [k]) sep = Inr sub \<and>
                       set sub \<subseteq> set items) \<and>
                (new_key, JStr (dumps v)) \<in> set items
            | JList _ \<Rightarrow>
                (new_key, JStr (dumps v)) \<in> set items \<and>
                flatten_record_items dumps [(k, v)] parent_key sep
                  = Inr [(new_key, JStr (dumps v))]
            | _ \<Rightarrow> (new_key, v) \<in> set items)"
proof -
  from assms(2) have ne: "kvs \<noteq> []" by auto
  with assms(1) obtain items where
    items: "flatten_record_items dumps kvs parent_key sep = Inr items" and r: "r = py_dict items"
    by (auto split: sum.splits)
  from flatten_record_items_registers [OF items assms(2)] obtain new_key where
    nk: "flatten_key k parent_key sep = Inr new_key" and
    reg: "(case v of
          JObj _ \<Rightarrow>
            (\<exists>sub. flatten_record dumps v (parent_key @ [k]) sep = Inr sub \<and>
                   set sub \<subseteq> set items) \<and>
            (new_key, JStr (dumps v)) \<in> set items
        | JList _ \<Rightarrow> (new_key, JStr (dumps v)) \<in> set items
        | _ \<Rightarrow> (new_key, v) \<in> set items)" by blast
  have reg': "(case v of
              JObj _ \<Rightarrow>
                (\<exists>sub. flatten_record dumps v (parent_key @ [k]) sep = Inr sub \<and>
                       set sub \<subseteq> set items) \<and>
                (new_key, JStr (dumps v)) \<in> set items
            | JList _ \<Rightarrow>
                (new_key, JStr (dumps v)) \<in> set items \<and>
                flatten_record_items dumps [(k, v)] parent_key sep
                  = Inr [(new_key, JStr (dumps v))]
            | _ \<Rightarrow> (new_key, v) \<in> set items)"
    using reg nk by (cases v) (auto simp del: flatten_record.simps)
  have keys: "fst ` set r = fst ` set items" unfolding r by (rule py_dict_keys)
  have m: "map_of r = map_of (rev items)" unfolding r by (rule py_dict_map_of)
  have d: "distinct (map fst items) \<longrightarrow> r = items" unfolding r by (simp add: py_dict_id)
  from nk items r keys m d reg' show ?thesis by blast
qed

theorem flatten_record_registers_witness:
  "flatten_record json_dumps
     (JObj [(''answers'', JObj [(''q1'', JStr ''some_string''),
                               (''some_dict'', JObj [(''q2'', JStr ''some_string2'')])])])
     [] ''__''
   = Inr [(''answers__q1'', JStr ''some_string''),
          (''answers__some_dict__q2'', JStr ''some_string2''),
          (''answers__some_dict'', JStr (json_dumps (JObj [(''q2'', JStr ''some_string2'')]))),
          (''answers'', JStr (json_dumps (JObj [(''q1'', JStr ''some_string''),
                               (''some_dict'', JObj [(''q2'', JStr ''some_string2'')])])))] \<and>
   (\<exists>sub. flatten_record json_dumps
      (JObj [(''q1'', JStr ''some_string''),
             (''some_dict'', JObj [(''q2'', JStr ''some_string2'')])]) [''answers''] ''__''
      = Inr sub)"
proof -
  let ?v = "JObj [(''q1'', JStr ''some_string''),
                  (''some_dict'', JObj [(''q2'', JStr ''some_string2'')])]"
  let ?r = "[(''answers__q1'', JStr ''some_string''),
          (''answers__some_dict__q2'', JStr ''some_string2''),
          (''answers__some_dict'', JStr (json_dumps (JObj [(''q2'', JStr ''some_string2'')]))),
          (''answers'', JStr (json_dumps ?v))]"
  have r: "flatten_record json_dumps (JObj [(''answers'', ?v)]) [] ''__'' = Inr ?r"
    by code_simp
  have m: "(''answers'', ?v) \<in> set [(''answers'', ?v)]" by simp
  from flatten_record_registers [OF r m]
  have "\<exists>sub. flatten_record json_dumps ?v ([] @ [''answers'']) ''__'' = Inr sub"
    by (auto simp del: flatten_record.simps)
  with r show ?thesis by simp
qed

text \<open>
  Claim C8 as stated fails for the returned mapping: in the record
  \<^verbatim>\<open>{"a": {"b": 1}, "A": 5}\<close> the keys \<^verbatim>\<open>a\<close> and \<^verbatim>\<open>A\<close> generate the same name, and the
  name of the nested mapping holds 5, not the serialized mapping.
\<close>

theorem flatten_record_overwritten_counterexample:
  "flatten_record json_dumps
     (JObj [(''a'', JObj [(''b'', JNum 1)]), (''A'', JNum 5)]) [] ''__''
   = Inr [(''a__b'', JNum 1), (''a'', JNum 5)]"
  by code_simp

text \<open>
  Claim C9. For every input that is not a non-empty mapping (\<^verbatim>\<open>None\<close>, the empty
  mapping, a list, a scalar) \<open>flatten_record\<close> returns the empty mapping: it raises
  nothing and looks at no part of the input.
\<close>

theorem flatten_record_not_mapping:
  "(\<forall>kvs. d = JObj kvs \<longrightarrow> kvs = []) \<Longrightarrow> flatten_record dumps d parent_key sep = Inr []"
  by (cases d) auto

theorem flatten_record_not_mapping_witness:
  "flatten_record json_dumps JNull [''p''] ''__'' = Inr [] \<and>
   flatten_record json_dumps (JObj []) [''p''] ''__'' = Inr [] \<and>
   flatten_record json_dumps (JList [JObj [(''a'', JNum 1)]]) [''p''] ''__'' = Inr [] \<and>
   flatten_record json_dumps (JStr ''abc'') [''p''] ''__'' = Inr [] \<and>
   flatten_record json_dumps (JNum 7) [''p''] ''__'' = Inr []"
proof -
  have a: "flatten_record json_dumps JNull [''p''] ''__'' = Inr []"
    by (rule flatten_record_not_mapping) simp
  have b: "flatten_record json_dumps (JObj []) [''p''] ''__'' = Inr []"
    by (rule flatten_record_not_mapping) simp
  have c: "flatten_record json_dumps (JList [JObj [(''a'', JNum 1)]]) [''p''] ''__'' = Inr []"
    by (rule flatten_record_not_mapping) simp
  have d: "flatten_record json_dumps (JStr ''abc'') [''p''] ''__'' = Inr []"
    by (rule flatten_record_not_mapping) simp
  have e: "flatten_record json_dumps (JNum 7) [''p''] ''__'' = Inr []"
    by (rule flatten_record_not_mapping) simp
  from a b c d e show ?thesis by (intro conjI)
qed

lemma first_duplicate_groupby:
  "sorted (map f xs) \<Longrightarrow> first_duplicate (groupby f xs) = None \<longleftrightarrow> distinct (map f xs)"
proof (induction f xs rule: groupby.induct)
  case (1 f)
  then show ?case by simp
next
  case (2 f x xs)
  show ?case
  proof (cases "takeWhile (\<lambda>y. f y = f x) xs = []")
    case True
    then have dw: "dropWhile (\<lambda>y. f y = f x) xs = xs"
      by (cases xs) (auto split: if_splits)
    have srt: "sorted (map f xs)" using "2.prems" by simp
    have notin: "f x \<notin> set (map f xs)"
    proof (cases xs)
      case Nil
      then show ?thesis by simp
    next
      case (Cons y ys)
      with True have ne: "f y \<noteq> f x" by (auto split: if_splits)
      have "f x \<le> f y" using "2.prems" Cons by simp
      with ne have lt: "f x < f y" by simp
      have "\<forall>z \<in> set (map f xs). f y \<le> z" using srt Cons by auto
      with lt show ?thesis by (metis less_le_not_le)
    qed
    have "first_duplicate (groupby f (x # xs)) = first_duplicate (groupby f xs)"
      using True dw by simp
    moreover have "first_duplicate (groupby f xs) = None \<longleftrightarrow> distinct (map f xs)"
      using "2.IH" srt dw by simp
    ultimately show ?thesis using notin by simp
  next
    case False
    then obtain y ys where xs: "xs = y # ys" and eq: "f y = f x"
      by (cases xs) (auto split: if_splits)
    have "first_duplicate (groupby f (x # xs)) = Some (f x)" using False by simp
    moreover have "\<not> distinct (map f (x # xs))" using xs eq by simp
    ultimately show ?thesis by simp
  qed
qed

lemma flatten_schema_check:
  "(case first_duplicate (groupby fst (sort_key fst items)) of
      Some k \<Rightarrow> Inl (ValueError k)
    | None \<Rightarrow> Inr (py_dict (sort_key fst items)))
   = (if distinct (map fst items) then Inr (sort_key fst items)
      else Inl (ValueError (the (first_duplicate (groupby fst (sort_key fst items))))))"
proof -
  have srt: "sorted (map fst (sort_key fst items))" by simp
  have d: "distinct (map fst (sort_key fst items)) \<longleftrightarrow> distinct (map fst items)"
    by (metis distinct_map distinct_sort set_sort mset_sort mset_map mset_eq_imp_distinct_iff)
  from first_duplicate_groupby [OF srt] d
  have iff: "first_duplicate (groupby fst (sort_key fst items)) = None \<longleftrightarrow> distinct (map fst items)"
    by simp
  show ?thesis
  proof (cases "distinct (map fst items)")
    case True
    with iff d show ?thesis by (simp add: py_dict_id)
  next
    case False
    with iff show ?thesis by auto
  qed
qed


lemma distinct_names_mset:
  "mset items = mset (map snd cols) \<Longrightarrow>
     distinct (map fst items) \<longleftrightarrow> distinct (map (\<lambda>c. fst (snd c)) cols)"
proof -
  assume "mset items = mset (map snd cols)"
  then have "mset (map fst items) = mset (map fst (map snd cols))"
    by (metis mset_map)
  then have "distinct (map fst items) \<longleftrightarrow> distinct (map fst (map snd cols))"
    by (rule mset_eq_imp_distinct_iff)
  then show ?thesis by (simp add: comp_def)
qed

lemma flatten_schema_columns:
  "schema_columns d p sep = Inr cols \<Longrightarrow>
     (if distinct (map (\<lambda>c. fst (snd c)) cols)
      then \<exists>r. flatten_schema d p sep = Inr r \<and> mset r = mset (map snd cols)
      else \<exists>k. flatten_schema d p sep = Inl (ValueError k))"
  "schema_columns_items kvs p sep = Inr cols' \<Longrightarrow>
     (\<exists>items. flatten_schema_items kvs p sep = Inr items \<and> mset items = mset (map snd cols')) \<or>
     (\<not> distinct (map (\<lambda>c. fst (snd c)) cols') \<and>
      (\<exists>k. flatten_schema_items kvs p sep = Inl (ValueError k)))"
proof (induction d p sep and kvs p sep arbitrary: cols and cols'
    rule: schema_columns_schema_columns_items.induct)
  case (1 d parent_key sep)
  from "1.prems" obtain props kvs where
    props: "getitem d ''properties'' = Inr props" and kvs: "py_items props = Inr kvs" and
    cols: "schema_columns_items kvs parent_key sep = Inr cols"
    by (auto simp: schema_columns.simps(1) split: sum.splits)
  from "1.IH" [OF props kvs cols]
  show ?case
  proof
    assume "\<exists>items. flatten_schema_items kvs parent_key sep = Inr items \<and>
              mset items = mset (map snd cols)"
    then obtain items where items: "flatten_schema_items kvs parent_key sep = Inr items"
      and ms: "mset items = mset (map snd cols)" by blast
    have fs: "flatten_schema d parent_key sep =
        (if distinct (map fst items) then Inr (sort_key fst items)
         else Inl (ValueError (the (first_duplicate (groupby fst (sort_key fst items))))))"
      using props kvs items flatten_schema_check [of items]
      by (simp add: Let_def flatten_schema.simps(1))
    have msr: "mset (sort_key fst items) = mset (map snd cols)" using ms by simp
    show ?thesis
    proof (cases "distinct (map (\<lambda>c. fst (snd c)) cols)")
      case True
      then have "distinct (map fst items)" using distinct_names_mset [OF ms] by simp
      then have "flatten_schema d parent_key sep = Inr (sort_key fst items)"
        unfolding fs by simp
      with msr have "\<exists>r. flatten_schema d parent_key sep = Inr r \<and> mset r = mset (map snd cols)"
        by blast
      with True show ?thesis by (simp only: if_True)
    next
      case False
      then have "\<not> distinct (map fst items)" using distinct_names_mset [OF ms] by simp
      then have "\<exists>e. flatten_schema d parent_key sep = Inl (ValueError e)"
        unfolding fs by simp
      with False show ?thesis by (simp only: if_False)
    qed
  next
    assume "\<not> distinct (map (\<lambda>c. fst (snd c)) cols) \<and>
      (\<exists>k. flatten_schema_items kvs parent_key sep = Inl (ValueError k))"
    then obtain e where nd: "\<not> distinct (map (\<lambda>c. fst (snd c)) cols)"
      and e: "flatten_schema_items kvs parent_key sep = Inl (ValueError e)" by blast
    have "flatten_schema d parent_key sep = Inl (ValueError e)"
      using props kvs e by (simp add: flatten_schema.simps(1))
    then have "\<exists>e. flatten_schema d parent_key sep = Inl (ValueError e)" by blast
    with nd show ?thesis by (simp only: if_False)
  qed
next
  case (2 parent_key sep)
  then show ?case by simp
next
  case (3 k v0 rest parent_key sep)
  from "3.prems" obtain new_key act where
    nk: "flatten_key k parent_key sep = Inr new_key" and act: "schema_node v0 = Inr act"
    by (auto split: sum.splits)
  show ?case
  proof (cases act)
    case (Descend v)
    from "3.prems" nk act Descend obtain sub more where
      sub: "schema_columns v (parent_key @ [k]) sep = Inr sub" and
      more: "schema_columns_items rest parent_key sep = Inr more" and
      cols: "cols' = sub @ more"
      by (auto split: sum.splits)
    have ih1: "if distinct (map (\<lambda>c. fst (snd c)) sub)
      then \<exists>r. flatten_schema v (parent_key @ [k]) sep = Inr r \<and> mset r = mset (map snd sub)
      else \<exists>e. flatten_schema v (parent_key @ [k]) sep = Inl (ValueError e)"
      using "3.IH"(1) nk act Descend sub by blast
    have ih2: "(\<exists>items. flatten_schema_items rest parent_key sep = Inr items \<and>
                 mset items = mset (map snd more)) \<or>
       (\<not> distinct (map (\<lambda>c. fst (snd c)) more) \<and>
        (\<exists>e. flatten_schema_items rest parent_key sep = Inl (ValueError e)))"
      using "3.IH"(2) nk act Descend sub more by blast
    show ?thesis
    proof (cases "distinct (map (\<lambda>c. fst (snd c)) sub)")
      case True
      with ih1 obtain r where r: "flatten_schema v (parent_key @ [k]) sep = Inr r"
        "mset r = mset (map snd sub)" by auto
      from ih2 show ?thesis
      proof
        assume "\<exists>items. flatten_schema_items rest parent_key sep = Inr items \<and>
                 mset items = mset (map snd more)"
        then show ?thesis using nk act Descend r cols by auto
      next
        assume "\<not> distinct (map (\<lambda>c. fst (snd c)) more) \<and>
          (\<exists>e. flatten_schema_items rest parent_key sep = Inl (ValueError e))"
        then show ?thesis using nk act Descend r cols by auto
      qed
    next
      case False
      with ih1 obtain e where "flatten_schema v (parent_key @ [k]) sep = Inl (ValueError e)"
        by auto
      then show ?thesis using nk act Descend cols False by auto
    qed
  next
    case (Append v)
    from "3.prems" nk act Append obtain more where
      more: "schema_columns_items rest parent_key sep = Inr more" and
      cols: "cols' = (parent_key @ [k], new_key, v) # more"
      by (auto split: sum.splits)
    have ih: "(\<exists>items. flatten_schema_items rest parent_key sep = Inr items \<and>
                 mset items = mset (map snd more)) \<or>
       (\<not> distinct (map (\<lambda>c. fst (snd c)) more) \<and>
        (\<exists>e. flatten_schema_items rest parent_key sep = Inl (ValueError e)))"
      using "3.IH"(3) nk act Append more by blast
    then show ?thesis using nk act Append cols by auto
  next
    case Nothing
    from "3.prems" nk act Nothing have
      more: "schema_columns_items rest parent_key sep = Inr cols'"
      by (auto split: sum.splits)
    have ih: "(\<exists>items. flatten_schema_items rest parent_key sep = Inr items \<and>
                 mset items = mset (map snd cols')) \<or>
       (\<not> distinct (map (\<lambda>c. fst (snd c)) cols') \<and>
        (\<exists>e. flatten_schema_items rest parent_key sep = Inl (ValueError e)))"
      using "3.IH"(4) nk act Nothing more by blast
    then show ?thesis using nk act Nothing by auto
  qed
qed

text \<open>
  Claim C6, as the code has it. For every schema whose traversal generates a name for
  each of its properties, and in which two distinct property paths generate the same
  column name, \<open>flatten_schema\<close> raises the \<^verbatim>\<open>ValueError\<close> of the duplicate column, and
  the construction of \<open>DbSync\<close> for a message with this schema raises that error
  having sent no statement, whatever the state of the database: nothing is created or
  altered before.
\<close>

theorem schema_conflict_rejected:
  assumes cols: "schema_columns d [] ''__'' = Inr cols"
    and c1: "(p1, n, v1) \<in> set cols" and c2: "(p2, n, v2) \<in> set cols" and ne: "p1 \<noteq> p2"
    and d: "schema msg = d"
  shows "\<exists>k. flatten_schema d [] ''__'' = Inl (ValueError k) \<and>
             DbSync_init cfg msg db = ([], Inl (ValueError k))"
proof -
  have "\<not> distinct (map (\<lambda>c. fst (snd c)) cols)"
  proof
    assume "distinct (map (\<lambda>c. fst (snd c)) cols)"
    then have "inj_on (\<lambda>c. fst (snd c)) (set cols)" by (simp add: distinct_map)
    from inj_onD [OF this _ c1 c2] ne show False by simp
  qed
  with flatten_schema_columns(1) [OF cols]
  obtain k where k: "flatten_schema d [] ''__'' = Inl (ValueError k)" by auto
  then have "DbSync_init cfg msg db = ([], Inl (ValueError k))"
    using d by (simp add: DbSync_init_def pure_result_def)
  with k show ?thesis by blast
qed

theorem schema_conflict_rejected_witness:
  "schema_columns
     (JObj [(''properties'', JObj [
        (''user__id'', JObj [(''type'', JStr ''integer'')]),
        (''user'', JObj [(''type'', JStr ''object''), (''properties'', JObj [
           (''id'', JObj [(''type'', JStr ''string'')])])])])]) [] ''__''
     = Inr [([''user__id''], ''user__id'', JObj [(''type'', JStr ''integer'')]),
            ([''user'', ''id''], ''user__id'', JObj [(''type'', JStr ''string'')])] \<and>
   [''user__id''] \<noteq> [''user'', ''id''] \<and>
   (\<exists>k. flatten_schema
     (JObj [(''properties'', JObj [
        (''user__id'', JObj [(''type'', JStr ''integer'')]),
        (''user'', JObj [(''type'', JStr ''object''), (''properties'', JObj [
           (''id'', JObj [(''type'', JStr ''string'')])])])])]) [] ''__'' = Inl (ValueError k) \<and>
     DbSync_init example_config
       \<lparr> stream = ''users'',
         schema = JObj [(''properties'', JObj [
        (''user__id'', JObj [(''type'', JStr ''integer'')]),
        (''user'', JObj [(''type'', JStr ''object''), (''properties'', JObj [
           (''id'', JObj [(''type'', JStr ''string'')])])])])],
         key_properties = [] \<rparr> users_db = ([], Inl (ValueError k)))"
proof -
  let ?d = "JObj [(''properties'', JObj [
        (''user__id'', JObj [(''type'', JStr ''integer'')]),
        (''user'', JObj [(''type'', JStr ''object''), (''properties'', JObj [
           (''id'', JObj [(''type'', JStr ''string'')])])])])]"
  let ?cols = "[([''user__id''], ''user__id'', JObj [(''type'', JStr ''integer'')]),
            ([''user'', ''id''], ''user__id'', JObj [(''type'', JStr ''string'')])]"
  have cols: "schema_columns ?d [] ''__'' = Inr ?cols" by code_simp
  have c1: "([''user__id''], ''user__id'', JObj [(''type'', JStr ''integer'')]) \<in> set ?cols"
    by simp
  have c2: "([''user'', ''id''], ''user__id'', JObj [(''type'', JStr ''string'')]) \<in> set ?cols"
    by simp
  have ne: "[''user__id''] \<noteq> [''user'', ''id'']" by simp
  have d: "schema \<lparr> stream = ''users'', schema = ?d, key_properties = [] \<rparr> = ?d" by simp
  from schema_conflict_rejected [OF cols c1 c2 ne d, of example_config users_db] cols ne
  show ?thesis by blast
qed

text \<open>
  Claim C6 as stated fails: with the properties \<^verbatim>\<open>a\<close>, \<^verbatim>\<open>A\<close> and the empty name, the
  first two generate the same column name, and the error raised is the \<^verbatim>\<open>IndexError\<close>
  of \<open>inflect_name\<close> on the empty name, before the duplicates are looked for.
\<close>

theorem schema_conflict_empty_name_counterexample:
  "flatten_key ''a'' [] ''__'' = Inr ''a'' \<and>
   flatten_key ''A'' [] ''__'' = Inr ''a'' \<and>
   flatten_schema
     (JObj [(''properties'', JObj [
        (''a'', JObj [(''type'', JStr ''integer'')]),
        (''A'', JObj [(''type'', JStr ''string'')]),
        ('''', JObj [(''type'', JStr ''string'')])])]) [] ''__'' = Inl IndexError \<and>
   outcome (DbSync_init example_config
     \<lparr> stream = ''t'',
       schema = JObj [(''properties'', JObj [
        (''a'', JObj [(''type'', JStr ''integer'')]),
        (''A'', JObj [(''type'', JStr ''string'')]),
        ('''', JObj [(''type'', JStr ''string'')])])],
       key_properties = [] \<rparr> users_db) = ([], Inl IndexError)"
  by code_simp

section \<open>Properties of the table synchronisation\<close>

lemma and_then_pure_Inr: "and_then (pure_result (Inr a)) f db = f a db"
  by (simp add: and_then_def pure_result_def split: prod.splits)

lemma and_then_pure_Inl: "and_then (pure_result (Inl e)) f db = ([], Inl e)"
  by (simp add: and_then_def pure_result_def)

lemma execute_Inl: "execute ex (Inl e) db = ([], Inl e)"
  by (simp add: execute_def and_then_pure_Inl)

lemma execute_Inr:
  "execute ex (Inr q) db =
     ([q], case ex q db of Inl e \<Rightarrow> Inl e | Inr (rows, db') \<Rightarrow> Inr ((), db'))"
  by (simp add: execute_def and_then_pure_Inr and_then_def query_def pure_result_def
      split: sum.splits prod.splits)

lemma and_then_assoc:
  "and_then (and_then m f) g = and_then m (\<lambda>a. and_then (f a) g)"
  by (rule ext) (auto simp: and_then_def split: prod.splits sum.splits)

lemma and_then_Inl: "m db = (sent, Inl e) \<Longrightarrow> and_then m f db = (sent, Inl e)"
  by (simp add: and_then_def)

lemma and_then_Inr:
  "m db = (sent, Inr (a, db1)) \<Longrightarrow>
     and_then m f db = (sent @ fst (f a db1), snd (f a db1))"
  by (simp add: and_then_def split: prod.splits)

lemma load_csv_prior_then_drop:
  "load_csv ex self file =
     and_then (load_csv_prior ex self file) (\<lambda>_. execute ex (drop_temp_table self))"
  by (simp add: load_csv_def load_csv_prior_def and_then_assoc)

lemma execute_sent:
  "execute ex built db = (sent, r) \<Longrightarrow> q \<in> set sent \<Longrightarrow> built = Inr q"
  by (cases built) (auto simp: execute_Inl execute_Inr)

lemma and_then_sent:
  assumes "q \<in> set (fst (and_then m f db))"
  shows "q \<in> set (fst (m db)) \<or> (\<exists>a db1. q \<in> set (fst (f a db1)))"
proof -
  obtain sent r where m: "m db = (sent, r)" by (cases "m db")
  show ?thesis
  proof (cases r)
    case (Inl e)
    with m assms show ?thesis by (simp add: and_then_def)
  next
    case (Inr p)
    obtain a db1 where p: "p = (a, db1)" by (cases p)
    from m Inr p assms have "q \<in> set sent \<or> q \<in> set (fst (f a db1))"
      by (auto simp: and_then_def split: prod.splits)
    with m show ?thesis by auto
  qed
qed

lemma not_drop_create: "create_table_query self b = Inr q \<Longrightarrow> \<not> is_drop_table q"
  by (auto simp: create_table_query_def Let_def split: sum.splits if_splits)

lemma not_drop_copy: "copy_sql self file = Inr q \<Longrightarrow> \<not> is_drop_table q"
  by (auto simp: copy_sql_def split: sum.splits)

lemma not_drop_update: "update_from_temp_table self = Inr q \<Longrightarrow> \<not> is_drop_table q"
  by (auto simp: update_from_temp_table_def Let_def split: sum.splits)

lemma not_drop_insert: "insert_from_temp_table self = Inr q \<Longrightarrow> \<not> is_drop_table q"
  by (auto simp: insert_from_temp_table_def Let_def split: sum.splits if_splits)

lemma load_csv_prior_no_drop:
  assumes "load_csv_prior ex self file db = (sent, r)" and "q \<in> set sent"
  shows "\<not> is_drop_table q"
proof -
  from assms have "q \<in> set (fst (load_csv_prior ex self file db))" by simp
  from and_then_sent [OF this [unfolded load_csv_prior_def]]
  consider (a) "q \<in> set (fst (execute ex (create_table_query self True) db))"
    | (b) db1 where "q \<in> set (fst (and_then (execute ex (copy_sql self file)) (\<lambda>_.
           and_then (if length (key_properties (stream_schema_message self)) > 0
               then execute ex (update_from_temp_table self)
               else pure_result (Inr ())) (\<lambda>_.
           execute ex (insert_from_temp_table self))) db1))"
    by blast
  then show ?thesis
  proof cases
    case a
    then show ?thesis
      using execute_sent [of ex "create_table_query self True" db] not_drop_create
      by (metis prod.collapse)
  next
    case b
    from and_then_sent [OF b]
    consider (c) "q \<in> set (fst (execute ex (copy_sql self file) db1))"
      | (d) db2 where "q \<in> set (fst (and_then (if length (key_properties (stream_schema_message self)) > 0
               then execute ex (update_from_temp_table self)
               else pure_result (Inr ())) (\<lambda>_.
           execute ex (insert_from_temp_table self)) db2))"
      by blast
    then show ?thesis
    proof cases
      case c
      then show ?thesis
        using execute_sent [of ex "copy_sql self file" db1] not_drop_copy
        by (metis prod.collapse)
    next
      case d
      from and_then_sent [OF d]
      consider (e) "q \<in> set (fst ((if length (key_properties (stream_schema_message self)) > 0
               then execute ex (update_from_temp_table self)
               else pure_result (Inr ())) db2))"
        | (f) db3 where "q \<in> set (fst (execute ex (insert_from_temp_table self) db3))"
        by blast
      then show ?thesis
      proof cases
        case e
        then have "q \<in> set (fst (execute ex (update_from_temp_table self) db2))"
          by (auto simp: pure_result_def split: if_splits)
        then show ?thesis
          using execute_sent [of ex "update_from_temp_table self" db2] not_drop_update
          by (metis prod.collapse)
      next
        case f
        then show ?thesis
          using execute_sent [of ex "insert_from_temp_table self" db3] not_drop_insert
          by (metis prod.collapse)
      qed
    qed
  qed
qed

text \<open>
  Claim C3, as the code has it. Whatever the connection does, the steps of
  \<open>load_csv\<close> before the drop (create, copy, update, insert) send no
  \<^verbatim>\<open>DROP TABLE\<close>. When one of them raises, \<open>load_csv\<close> ends there with the same
  exception and the same statements sent: the drop of the staging relation is not
  attempted. Only when all of them succeed is the drop executed, as the last
  statement.
\<close>

theorem load_csv_drop_after_success:
  "(case load_csv_prior ex self file db of
      (sent, Inl e) \<Rightarrow>
        load_csv ex self file db = (sent, Inl e) \<and> list_all (\<lambda>q. \<not> is_drop_table q) sent
    | (sent, Inr (u, db1)) \<Rightarrow>
        list_all (\<lambda>q. \<not> is_drop_table q) sent \<and>
        load_csv ex self file db =
          (sent @ fst (execute ex (drop_temp_table self) db1),
           snd (execute ex (drop_temp_table self) db1)))"
proof -
  obtain sent r where p: "load_csv_prior ex self file db = (sent, r)"
    by (cases "load_csv_prior ex self file db")
  have nd: "list_all (\<lambda>q. \<not> is_drop_table q) sent"
    using load_csv_prior_no_drop [OF p] by (simp add: list_all_iff)
  show ?thesis
  proof (cases r)
    case (Inl e)
    with p nd show ?thesis
      by (simp add: load_csv_prior_then_drop and_then_Inl)
  next
    case (Inr a)
    obtain u db1 where a: "a = (u, db1)" by (cases a)
    with p nd Inr show ?thesis
      by (simp add: load_csv_prior_then_drop and_then_Inr)
  qed
qed

lemma length_column_names: "length (column_names self) = length (flatten_schema_of self)"
  by (simp add: column_names_def)

text \<open>
  Claim C7. When the stream declares no key properties, the target relation exists
  and no relation has the staging name, loading a file of N rows of the right width
  succeeds on the model of the database; it sends create, copy, insert and drop, so
  no update statement; the target keeps its rows and columns and receives every
  staging row as it was copied, so it has exactly N rows more; and the staging
  relation is gone.
\<close>

theorem load_csv_blind_insert:
  assumes keys: "key_properties (stream_schema_message self) = []"
    and create: "create_table_query self True = Inr create"
    and t: "table_name self (stream (stream_schema_message self)) False = Inr t"
    and s: "table_name self (stream (stream_schema_message self)) True = Inr s"
    and target: "db (lower t) = Some tab"
    and staging: "db (lower s) = None"
    and arity: "list_all (\<lambda>row. length row = length (flatten_schema_of self)) file"
  shows "\<exists>sent db'.
           load_csv pg_exec self file db = (sent, Inr ((), db')) \<and>
           list_all (\<lambda>q. \<not> is_update q) sent \<and>
           sent = [create, CopyExpert s (column_names self) file,
                   InsertAll t (column_names self) s, DropTable s] \<and>
           (\<exists>tab'. db' (lower t) = Some tab' \<and>
                   columns_of tab' = columns_of tab \<and>
                   rows_of tab' =
                     rows_of tab @ map (zip (map unquote (column_names self))) file \<and>
                   length (rows_of tab') = length (rows_of tab) + length file) \<and>
           db' (lower s) = None"
proof -
  have ne: "lower s \<noteq> lower t" using target staging by auto
  obtain clauses pk where c: "create = CreateTable True s clauses pk"
    using create s keys
    by (auto simp: create_table_query_def Let_def split: sum.splits)
  have copy: "copy_sql self file = Inr (CopyExpert s (column_names self) file)"
    using s by (simp add: copy_sql_def)
  have ins: "insert_from_temp_table self = Inr (InsertAll t (column_names self) s)"
    using t s keys by (simp add: insert_from_temp_table_def Let_def)
  have drop: "drop_temp_table self = Inr (DropTable s)"
    using s by (simp add: drop_temp_table_def)
  have ar: "\<not> (\<exists>row \<in> set file. length row \<noteq> length (column_names self))"
    using arity by (simp add: list_all_iff length_column_names)
  let ?staged = "map (zip (map unquote (column_names self))) file"
  let ?db1 = "db(lower s \<mapsto> \<lparr> columns_of = map parse_clause clauses, rows_of = [] \<rparr>)"
  let ?db2 = "?db1(lower s \<mapsto> \<lparr> columns_of = map parse_clause clauses, rows_of = ?staged \<rparr>)"
  let ?db3 = "?db2(lower t \<mapsto> tab\<lparr> rows_of := rows_of tab @ ?staged \<rparr>)"
  let ?db4 = "?db3(lower s := None)"
  have e1: "execute pg_exec (create_table_query self True) db = ([create], Inr ((), ?db1))"
    using create c staging by (simp add: execute_Inr)
  have e2: "execute pg_exec (copy_sql self file) ?db1
              = ([CopyExpert s (column_names self) file], Inr ((), ?db2))"
    using copy ar by (simp add: execute_Inr)
  have e3: "execute pg_exec (insert_from_temp_table self) ?db2
              = ([InsertAll t (column_names self) s], Inr ((), ?db3))"
    using ins ne target by (simp add: execute_Inr)
  have e4: "execute pg_exec (drop_temp_table self) ?db3 = ([DropTable s], Inr ((), ?db4))"
    using drop ne by (simp add: execute_Inr)
  have run: "load_csv pg_exec self file db =
               ([create, CopyExpert s (column_names self) file,
                 InsertAll t (column_names self) s, DropTable s], Inr ((), ?db4))"
    unfolding load_csv_def
    using keys e1 e2 e3 e4
    by (simp add: and_then_Inr and_then_pure_Inr)
  have upd: "list_all (\<lambda>q. \<not> is_update q)
               [create, CopyExpert s (column_names self) file,
                InsertAll t (column_names self) s, DropTable s]"
    using c by simp
  have tgt: "?db4 (lower t) = Some (tab\<lparr> rows_of := rows_of tab @ ?staged \<rparr>)"
    using ne by simp
  have stg: "?db4 (lower s) = None" by simp
  have tgt': "\<exists>tab'. ?db4 (lower t) = Some tab' \<and>
                   columns_of tab' = columns_of tab \<and>
                   rows_of tab' = rows_of tab @ ?staged \<and>
                   length (rows_of tab') = length (rows_of tab) + length file"
    using tgt by simp
  from run upd tgt' stg show ?thesis by blast
qed

lemma lookup_missing: "key \<notin> fst ` set d \<Longrightarrow> lookup d key = Inl KeyError"
proof -
  assume "key \<notin> fst ` set d"
  then have "map_of d key = None" by (simp add: map_of_eq_None_iff)
  then show ?thesis by (simp add: lookup_def)
qed

lemma columns_to_replace_loop_missing:
  "(name, ps) \<in> set fs \<Longrightarrow> lower name \<notin> fst ` set columns_dict \<Longrightarrow>
     \<exists>e. columns_to_replace_loop self columns_dict fs = Inl e"
proof (induction fs)
  case Nil
  then show ?case by simp
next
  case (Cons a fs)
  obtain n' ps' where a: "a = (n', ps')" by (cases a)
  show ?case
  proof (cases "(name, ps) = (n', ps')")
    case True
    then show ?thesis
      using a Cons.prems(2) by (auto simp: Let_def lookup_missing split: sum.splits)
  next
    case False
    with Cons.prems a have "(name, ps) \<in> set fs" by auto
    from Cons.IH [OF this Cons.prems(2)] obtain e where
      "columns_to_replace_loop self columns_dict fs = Inl e" by blast
    then show ?thesis using a by (auto simp: Let_def split: sum.splits)
  qed
qed

lemma add_column_sent:
  "list_all is_add_column (fst (add_column ex self column stream_name db))"
  by (cases "table_name self stream_name False")
     (auto simp: add_column_def execute_Inl execute_Inr)

lemma for_each_add_column_sent:
  "list_all is_add_column
     (fst (for_each (\<lambda>column. add_column ex self column stream_name) to_add db))"
proof (induction to_add arbitrary: db)
  case Nil
  then show ?case by (simp add: pure_result_def)
next
  case (Cons c to_add)
  obtain sent r where m: "add_column ex self c stream_name db = (sent, r)"
    by (cases "add_column ex self c stream_name db")
  have s: "list_all is_add_column sent" using add_column_sent [of ex self c stream_name db] m by simp
  show ?case
  proof (cases r)
    case (Inl e)
    with m s show ?thesis by (simp add: and_then_Inl)
  next
    case (Inr p)
    obtain u db1 where "p = (u, db1)" by (cases p)
    with m s Inr Cons.IH [of db1] show ?thesis by (simp add: and_then_Inr)
  qed
qed

text \<open>
  Claim C1 against the code. Whenever a desired column name is absent,
  case-insensitively, from the live columns that \<open>get_table_columns\<close> returns,
  \<open>update_columns\<close> does not complete: it raises, having sent the query of the live
  columns and then \<^verbatim>\<open>ADD COLUMN\<close> statements only. The loop that fills
  \<^verbatim>\<open>columns_to_replace\<close> reads \<^verbatim>\<open>columns_dict[name_lower]\<close> of the absent name before it
  tests \<^verbatim>\<open>name_lower in columns_dict\<close>.
\<close>

theorem update_columns_missing_column:
  assumes desired: "(name, ps) \<in> set (flatten_schema_of self)"
    and tn: "inflect_name (stream (stream_schema_message self)) = Inr tn"
    and live: "ex (get_table_columns self tn) db = Inr (columns, db1)"
    and pairs: "map_raise (\<lambda>column. case lookup column ''column_name'' of
                                        Inl e \<Rightarrow> Inl e
                                      | Inr n \<Rightarrow> Inr (lower n, column)) columns = Inr pairs"
    and absent: "lower name \<notin> fst ` set pairs"
  shows "\<exists>sent e. update_columns ex self db = (get_table_columns self tn # sent, Inl e) \<and>
                  list_all is_add_column sent"
proof -
  let ?stream = "stream (stream_schema_message self)"
  let ?dict = "py_dict pairs"
  let ?clauses = "map_raise (\<lambda>(name, properties_schema).
                     column_clause name properties_schema (use_simple_column_type self))
                   (filter (\<lambda>(name, _). lower name \<notin> set (map fst ?dict))
                      (flatten_schema_of self))"
  have absent': "lower name \<notin> fst ` set ?dict" using absent by (simp add: py_dict_keys)
  from columns_to_replace_loop_missing [OF desired absent'] obtain e0 where
    rep: "columns_to_replace_loop self ?dict (flatten_schema_of self) = Inl e0" by blast
  have q: "query ex (get_table_columns self tn) db
             = ([get_table_columns self tn], Inr (columns, db1))"
    using live by (simp add: query_def)
  have start: "update_columns ex self db =
      (case ?clauses of
         Inl e \<Rightarrow> ([get_table_columns self tn], Inl e)
       | Inr to_add \<Rightarrow>
           (case for_each (\<lambda>column. add_column ex self column ?stream) to_add db1 of
              (sent, Inl e) \<Rightarrow> (get_table_columns self tn # sent, Inl e)
            | (sent, Inr (u, db2)) \<Rightarrow> (get_table_columns self tn # sent, Inl e0)))"
    unfolding update_columns_def Let_def
    using tn q pairs rep
    by (auto simp: and_then_pure_Inr and_then_Inr and_then_pure_Inl and_then_def pure_result_def
        split: sum.splits prod.splits)
  show ?thesis
  proof (cases ?clauses)
    case (Inl e)
    with start show ?thesis by simp
  next
    case (Inr to_add)
    obtain sent r where f: "for_each (\<lambda>column. add_column ex self column ?stream) to_add db1
                              = (sent, r)"
      by (cases "for_each (\<lambda>column. add_column ex self column ?stream) to_add db1")
    have s: "list_all is_add_column sent"
      using for_each_add_column_sent [of ex self ?stream to_add db1] f by simp
    show ?thesis
    proof (cases r)
      case (Inl e)
      with start Inr f s show ?thesis by simp
    next
      case r: (Inr p)
      obtain u db2 where "p = (u, db2)" by (cases p)
      with start Inr f s r show ?thesis by simp
    qed
  qed
qed

lemma users_sync_init:
  "outcome (DbSync_init example_config users_message users_db) = ([], Inr users_sync)"
  by code_simp

lemma accounts_sync_init:
  "outcome (DbSync_init example_config accounts_message accounts_db) = ([], Inr accounts_sync)"
  by code_simp

text \<open>
  The failing input of claim C1: the stream \<^verbatim>\<open>users\<close> with the columns \<^verbatim>\<open>id\<close> and \<^verbatim>\<open>name\<close>,
  on a live table that has \<^verbatim>\<open>id\<close> alone. The column \<^verbatim>\<open>name\<close> is added, and then
  \<open>update_columns\<close> raises \<^verbatim>\<open>KeyError\<close>.
\<close>

theorem update_columns_new_column_raises:
  "outcome (update_columns pg_exec users_sync users_db_id_only) =
     ([SelectColumns ''users'' ''public'',
       AddColumn ''public.users'' (safe_column_name ''name'' @ '' character varying'')],
      Inl KeyError)"
  by code_simp

text \<open>
  Claim C5 against the code, at its failing input: the stream \<^verbatim>\<open>accounts\<close>, whose live
  table stores \<^verbatim>\<open>active\<close> as a 64-bit integer while the schema wants a boolean, and
  lacks the column \<^verbatim>\<open>name\<close>. The mismatching live column \<^verbatim>\<open>active\<close> gets no drop and no
  add: after the \<^verbatim>\<open>ADD COLUMN\<close> of \<^verbatim>\<open>name\<close>, \<open>update_columns\<close> raises \<^verbatim>\<open>KeyError\<close> on
  \<^verbatim>\<open>name\<close> while it fills \<^verbatim>\<open>columns_to_replace\<close>, before any replacement is applied.
\<close>

theorem update_columns_mismatch_and_new_column:
  "outcome (update_columns pg_exec accounts_sync accounts_db_no_name) =
     ([SelectColumns ''accounts'' ''public'',
       AddColumn ''public.accounts'' (safe_column_name ''name'' @ '' character varying'')],
      Inl KeyError)"
  by code_simp

lemma update_columns_replace_example:
  "(case update_columns pg_exec accounts_sync accounts_db of
      (sent, Inr (u, db')) \<Rightarrow>
        sent = [SelectColumns ''accounts'' ''public'',
                DropColumn ''public.accounts'' (safe_column_name ''active''),
                AddColumn ''public.accounts'' (safe_column_name ''active'' @ '' boolean'')] \<and>
        map_option columns_of (db' ''public.accounts'') =
          Some [(''created_at'', ''timestamp without time zone''),
                (''name'', ''character varying''),
                (''active'', ''boolean'')]
    | (sent, Inl e) \<Rightarrow> False)"
  by code_simp

text \<open>
  Claim C3 as stated fails: when the bulk ingest fails (here on a row with a missing
  field), \<open>load_csv\<close> has sent the create and the copy and raises; no \<^verbatim>\<open>DROP TABLE\<close> of
  the staging relation follows.
\<close>

theorem load_csv_copy_fails_counterexample:
  "outcome (load_csv pg_exec users_sync [[''2'', ''bob''], [''3'']] users_db) =
     ([CreateTable True ''users_temp''
         [safe_column_name ''id'' @ '' bigint'',
          safe_column_name ''name'' @ '' character varying''] [],
       CopyExpert ''users_temp'' [safe_column_name ''id'', safe_column_name ''name'']
         [[''2'', ''bob''], [''3'']]],
      Inl (DbError ''wrong number of fields''))"
  by code_simp

lemma lower_examples:
  "lower ''users'' = ''users''" "lower ''public'' = ''public''"
  "lower ''id'' = ''id''" "lower ''name'' = ''name''"
  "lower ''public.users'' = ''public.users''" "lower ''users_temp'' = ''users_temp''"
  by code_simp+

lemma users_names:
  "inflect_name ''users'' = Inr ''users''"
  "table_name users_sync ''users'' False = Inr ''public.users''"
  "table_name users_sync ''users'' True = Inr ''users_temp''"
  by code_simp+

theorem update_columns_missing_column_witness:
  "(''name'', JObj [(''type'', JList [JStr ''null'', JStr ''string''])])
     \<in> set (flatten_schema_of users_sync) \<and>
   pg_exec (get_table_columns users_sync ''users'') users_db_id_only
     = Inr ([[(''column_name'', ''id''), (''data_type'', ''bigint'')]], users_db_id_only) \<and>
   lower ''name'' \<notin> fst ` set [(''id'', [(''column_name'', ''id''), (''data_type'', ''bigint'')])] \<and>
   (\<exists>sent e. update_columns pg_exec users_sync users_db_id_only
                 = (get_table_columns users_sync ''users'' # sent, Inl e) \<and>
              list_all is_add_column sent)"
proof -
  have desired: "(''name'', JObj [(''type'', JList [JStr ''null'', JStr ''string''])])
     \<in> set (flatten_schema_of users_sync)"
    by (simp add: users_sync_def)
  have tn: "inflect_name (stream (stream_schema_message users_sync)) = Inr ''users''"
    by (simp add: users_sync_def users_message_def users_names)
  have live: "pg_exec (get_table_columns users_sync ''users'') users_db_id_only
     = Inr ([[(''column_name'', ''id''), (''data_type'', ''bigint'')]], users_db_id_only)"
    by (simp add: get_table_columns_def users_sync_def users_db_id_only_def lower_examples)
  have pairs: "map_raise (\<lambda>column. case lookup column ''column_name'' of
                                        Inl e \<Rightarrow> Inl e
                                      | Inr n \<Rightarrow> Inr (lower n, column))
                 [[(''column_name'', ''id''), (''data_type'', ''bigint'')]]
               = Inr [(''id'', [(''column_name'', ''id''), (''data_type'', ''bigint'')])]"
    by (simp add: lookup_def lower_examples)
  have absent: "lower ''name'' \<notin>
      fst ` set [(''id'', [(''column_name'', ''id''), (''data_type'', ''bigint'')])]"
    by (simp add: lower_examples)
  from update_columns_missing_column
         [where self = users_sync and ex = pg_exec and db = users_db_id_only,
          OF desired tn live pairs absent] desired live absent
  show ?thesis by blast
qed

theorem load_csv_blind_insert_witness:
  "key_properties (stream_schema_message users_sync) = [] \<and>
   users_db (lower ''public.users'') =
     Some \<lparr> columns_of = [(''id'', ''bigint''), (''name'', ''character varying'')],
            rows_of = [[(''id'', ''1''), (''name'', ''ann'')]] \<rparr> \<and>
   users_db (lower ''users_temp'') = None \<and>
   (\<exists>sent db'.
      load_csv pg_exec users_sync [[''2'', ''bob''], [''3'', ''cy'']] users_db
        = (sent, Inr ((), db')) \<and>
      list_all (\<lambda>q. \<not> is_update q) sent \<and>
      (\<exists>tab'. db' (lower ''public.users'') = Some tab' \<and>
         rows_of tab' = [[(''id'', ''1''), (''name'', ''ann'')]] @
            map (zip (map unquote (column_names users_sync))) [[''2'', ''bob''], [''3'', ''cy'']] \<and>
         length (rows_of tab') = 1 + 2) \<and>
      db' (lower ''users_temp'') = None)"
proof -
  let ?tab = "\<lparr> columns_of = [(''id'', ''bigint''), (''name'', ''character varying'')],
            rows_of = [[(''id'', ''1''), (''name'', ''ann'')]] \<rparr>"
  have keys: "key_properties (stream_schema_message users_sync) = []"
    by (simp add: users_sync_def users_message_def)
  have create: "create_table_query users_sync True =
      Inr (CreateTable True ''users_temp''
         [safe_column_name ''id'' @ '' bigint'',
          safe_column_name ''name'' @ '' character varying''] [])"
    by code_simp
  have st: "stream (stream_schema_message users_sync) = ''users''"
    by (simp add: users_sync_def users_message_def)
  have t: "table_name users_sync (stream (stream_schema_message users_sync)) False
             = Inr ''public.users''"
    by (simp only: st users_names)
  have s: "table_name users_sync (stream (stream_schema_message users_sync)) True
             = Inr ''users_temp''"
    by (simp only: st users_names)
  have target: "users_db (lower ''public.users'') = Some ?tab"
    by (simp add: users_db_def lower_examples)
  have staging: "users_db (lower ''users_temp'') = None"
    by (simp add: users_db_def lower_examples)
  have arity: "list_all (\<lambda>row. length row = length (flatten_schema_of users_sync))
                 [[''2'', ''bob''], [''3'', ''cy'']]"
    by (simp add: users_sync_def)
  from load_csv_blind_insert [OF keys create t s target staging arity] keys target staging
  show ?thesis by auto
qed

theorem load_csv_drop_after_success_witness:
  "outcome (load_csv_prior pg_exec users_sync [[''2'', ''bob''], [''3'']] users_db) =
     ([CreateTable True ''users_temp''
         [safe_column_name ''id'' @ '' bigint'',
          safe_column_name ''name'' @ '' character varying''] [],
       CopyExpert ''users_temp'' [safe_column_name ''id'', safe_column_name ''name'']
         [[''2'', ''bob''], [''3'']]],
      Inl (DbError ''wrong number of fields'')) \<and>
   load_csv pg_exec users_sync [[''2'', ''bob''], [''3'']] users_db =
     load_csv_prior pg_exec users_sync [[''2'', ''bob''], [''3'']] users_db"
proof -
  have a: "outcome (load_csv_prior pg_exec users_sync [[''2'', ''bob''], [''3'']] users_db) =
     ([CreateTable True ''users_temp''
         [safe_column_name ''id'' @ '' bigint'',
          safe_column_name ''name'' @ '' character varying''] [],
       CopyExpert ''users_temp'' [safe_column_name ''id'', safe_column_name ''name'']
         [[''2'', ''bob''], [''3'']]],
      Inl (DbError ''wrong number of fields''))"
    by code_simp
  obtain sent r where p:
    "load_csv_prior pg_exec users_sync [[''2'', ''bob''], [''3'']] users_db = (sent, r)"
    by (cases "load_csv_prior pg_exec users_sync [[''2'', ''bob''], [''3'']] users_db")
  with a obtain e where r: "r = Inl e" by (cases r) (auto simp: outcome_def)
  from load_csv_drop_after_success [of pg_exec users_sync "[[''2'', ''bob''], [''3'']]" users_db]
    p r
  have "load_csv pg_exec users_sync [[''2'', ''bob''], [''3'']] users_db = (sent, Inl e)"
    by simp
  with p r a show ?thesis by simp
qed

subsection \<open>When every desired column is live\<close>

text \<open>
  On the database model, when every column of the flattened schema is already in the live
  table (names in lower case, as the catalogue stores them), \<open>update_columns\<close> returns:
  it sends the catalogue query and then, for each desired column whose stored type
  differs, a \<^verbatim>\<open>DROP COLUMN\<close> followed by an \<^verbatim>\<open>ADD COLUMN\<close> with the desired type, and
  nothing else; afterwards each desired column has the desired type, or its stored type
  where no replacement was due.
\<close>

lemma lower_append: "lower (a @ b) = lower a @ lower b"
  by (simp add: lower_def)

lemma lower_dot: "lower ''.'' = ''.''"
  by code_simp

lemma takeWhile_until: "c \<notin> set n \<Longrightarrow> takeWhile (\<lambda>d. d \<noteq> c) (n @ c # rest) = n"
  by (induction n) auto

lemma unquote_safe: "CHR 0x22 \<notin> set n \<Longrightarrow> unquote (safe_column_name n @ rest) = n"
  by (simp add: unquote_def safe_column_name_def takeWhile_until)

lemma unquote_safe0: "CHR 0x22 \<notin> set n \<Longrightarrow> unquote (safe_column_name n) = n"
  using unquote_safe [of n "[]"] by simp

lemma parse_clause_safe:
  "CHR 0x22 \<notin> set n \<Longrightarrow> parse_clause (safe_column_name n @ '' '' @ ty) = (n, ty)"
proof -
  assume n: "CHR 0x22 \<notin> set n"
  have "drop (length n + 3) (safe_column_name n @ '' '' @ ty) = ty"
    by (simp add: safe_column_name_def numeral_3_eq_3)
  with unquote_safe [OF n, of "'' '' @ ty"] show ?thesis
    by (simp add: parse_clause_def)
qed

lemma column_type_simple_values:
  "column_type_simple ps = Inr ty \<Longrightarrow>
     ty \<in> {''jsonb'', ''timestamp with time zone'', ''date'', ''numeric'',
            ''character varying'', ''boolean'', ''bigint''}"
  by (auto simp: column_type_simple_def Let_def split: sum.splits if_splits)

lemma column_type_generic_values:
  "column_type_generic ps = Inr ty \<Longrightarrow>
     ty \<in> {''jsonb'', ''timestamp with time zone'', ''date'', ''numeric'',
            ''character varying'', ''boolean'', ''bigint''}"
  by (auto simp: column_type_generic_def Let_def JSONSCHEMA_TYPE_TO_POSTGRES_TYPE_def
      split: sum.splits if_splits option.splits)

lemma lower_type_names:
  "lower ''jsonb'' = ''jsonb''" "lower ''timestamp with time zone'' = ''timestamp with time zone''"
  "lower ''date'' = ''date''" "lower ''numeric'' = ''numeric''"
  "lower ''character varying'' = ''character varying''" "lower ''boolean'' = ''boolean''"
  "lower ''bigint'' = ''bigint''"
  by code_simp+

lemma column_type_lower: "column_type ps b = Inr ty \<Longrightarrow> lower ty = ty"
  using column_type_simple_values [of ps ty] column_type_generic_values [of ps ty]
  by (auto simp: column_type_def lower_type_names split: if_splits)

lemma map_of_live:
  "map_of (map (\<lambda>c. (fst c, live_row c)) cols) n =
     (case map_of cols n of None \<Rightarrow> None | Some stored \<Rightarrow> Some (live_row (n, stored)))"
  by (induction cols) auto

lemma lookup_live:
  "map_of cols n = Some stored \<Longrightarrow>
     lookup (map (\<lambda>c. (fst c, live_row c)) cols) n = Inr (live_row (n, stored))"
  by (simp add: lookup_def map_of_live)

lemma lookup_data_type: "lookup (live_row (n, stored)) ''data_type'' = Inr stored"
  by (simp add: lookup_def live_row_def)

lemma columns_to_replace_loop_live:
  assumes "map_raise (\<lambda>(name, ps). case column_type ps (use_simple_column_type self) of
                                     Inl e \<Rightarrow> Inl e | Inr ty \<Rightarrow> Inr (name, ty)) fs = Inr desired"
    and "list_all (\<lambda>(name, ps). lower name = name \<and>
           (case map_of cols name of None \<Rightarrow> False | Some stored \<Rightarrow> lower stored = stored)) fs"
  shows "columns_to_replace_loop self (map (\<lambda>c. (fst c, live_row c)) cols) fs =
           Inr (map (\<lambda>(n, ty). (safe_column_name n, safe_column_name n @ '' '' @ ty))
                  (planned cols desired))"
  using assms
proof (induction fs arbitrary: desired)
  case Nil
  then show ?case by (simp add: planned_def)
next
  case (Cons a fs)
  obtain name ps where a: "a = (name, ps)" by (cases a)
  from Cons.prems(1) a obtain ty rest where
    ty: "column_type ps (use_simple_column_type self) = Inr ty" and
    rest: "map_raise (\<lambda>(name, ps). case column_type ps (use_simple_column_type self) of
                                     Inl e \<Rightarrow> Inl e | Inr ty \<Rightarrow> Inr (name, ty)) fs = Inr rest" and
    desired: "desired = (name, ty) # rest"
    by (auto split: sum.splits)
  from Cons.prems(2) a obtain stored where
    low: "lower name = name" and stored: "map_of cols name = Some stored" and
    lows: "lower stored = stored" and
    others: "list_all (\<lambda>(name, ps). lower name = name \<and>
           (case map_of cols name of None \<Rightarrow> False | Some stored \<Rightarrow> lower stored = stored)) fs"
    by (auto split: option.splits)
  have lty: "lower ty = ty" using ty by (rule column_type_lower)
  have mem: "name \<in> set (map fst (map (\<lambda>c. (fst c, live_row c)) cols))"
    using stored by (auto simp: comp_def dest: map_of_SomeD intro: rev_image_eqI)
  have clause: "column_clause name ps (use_simple_column_type self)
                  = Inr (safe_column_name name @ '' '' @ ty)"
    using ty by (simp add: column_clause_def)
  have ih: "columns_to_replace_loop self (map (\<lambda>c. (fst c, live_row c)) cols) fs =
           Inr (map (\<lambda>(n, ty). (safe_column_name n, safe_column_name n @ '' '' @ ty))
                  (planned cols rest))"
    using Cons.IH [OF rest others] .
  show ?case
    unfolding a desired
    using ty low lookup_live [OF stored] lookup_data_type [of name stored] lows lty mem clause ih
      stored
    by (simp add: Let_def planned_def needs_replace_def)
qed

lemma replace_column_keys:
  "fst ` set (columns_of (replace_column n ty tab)) = insert n (fst ` set (columns_of tab))"
  by (auto simp: replace_column_def AList.delete_eq image_iff)

lemma apply_replacements:
  assumes "table_name self sname False = Inr t"
    and "db (lower t) = Some tab"
    and "distinct (map fst reps)"
    and "list_all (\<lambda>(n, ty). n \<in> fst ` set (columns_of tab) \<and> CHR 0x22 \<notin> set n) reps"
  shows "for_each (\<lambda>(column_name, column).
                     and_then (drop_column pg_exec self column_name sname)
                       (\<lambda>_. add_column pg_exec self column sname))
           (map (\<lambda>(n, ty). (safe_column_name n, safe_column_name n @ '' '' @ ty)) reps) db
         = (concat (map (\<lambda>(n, ty). [DropColumn t (safe_column_name n),
                                      AddColumn t (safe_column_name n @ '' '' @ ty)]) reps),
            Inr ((), db(lower t \<mapsto> fold (\<lambda>(n, ty). replace_column n ty) reps tab)))"
  using assms(2-4)
proof (induction reps arbitrary: db tab)
  case Nil
  then have "db(lower t \<mapsto> tab) = db" by (simp add: fun_upd_idem)
  then show ?case by (simp add: pure_result_def)
next
  case (Cons a reps)
  obtain n ty where a: "a = (n, ty)" by (cases a)
  from Cons.prems a have live: "n \<in> fst ` set (columns_of tab)" and q: "CHR 0x22 \<notin> set n"
    and fresh: "n \<notin> fst ` set reps" and dist: "distinct (map fst reps)"
    and others: "list_all (\<lambda>(n, ty). n \<in> fst ` set (columns_of tab) \<and> CHR 0x22 \<notin> set n) reps"
    by auto
  let ?tab1 = "tab\<lparr> columns_of := AList.delete n (columns_of tab),
                     rows_of := map (AList.delete n) (rows_of tab) \<rparr>"
  let ?db1 = "db(lower t \<mapsto> ?tab1)"
  let ?tab2 = "replace_column n ty tab"
  let ?db2 = "db(lower t \<mapsto> ?tab2)"
  have d: "drop_column pg_exec self (safe_column_name n) sname db
             = ([DropColumn t (safe_column_name n)], Inr ((), ?db1))"
    using assms(1) Cons.prems(1) live q
    by (simp add: drop_column_def execute_Inr unquote_safe0)
  have notin: "n \<notin> fst ` set (AList.delete n (columns_of tab))"
    by (auto simp: AList.delete_eq)
  have ad: "add_column pg_exec self (safe_column_name n @ '' '' @ ty) sname ?db1
             = ([AddColumn t (safe_column_name n @ '' '' @ ty)], Inr ((), ?db2))"
  proof -
    have pc: "parse_clause (safe_column_name n @ CHR '' '' # ty) = (n, ty)"
      using parse_clause_safe [OF q, of ty] by simp
    show ?thesis
      using assms(1) notin
      by (simp add: add_column_def execute_Inr pc replace_column_def)
  qed
  have pair: "and_then (drop_column pg_exec self (safe_column_name n) sname)
                (\<lambda>_. add_column pg_exec self (safe_column_name n @ '' '' @ ty) sname) db
              = ([DropColumn t (safe_column_name n),
                  AddColumn t (safe_column_name n @ '' '' @ ty)], Inr ((), ?db2))"
    using d ad by (simp add: and_then_Inr)
  have tab2: "?db2 (lower t) = Some ?tab2" by simp
  have others2: "list_all (\<lambda>(n, ty). n \<in> fst ` set (columns_of ?tab2) \<and> CHR 0x22 \<notin> set n) reps"
    using others by (auto simp: list_all_iff replace_column_keys)
  from Cons.IH [of ?db2 ?tab2, OF tab2 dist others2]
  have ih: "for_each (\<lambda>(column_name, column).
                     and_then (drop_column pg_exec self column_name sname)
                       (\<lambda>_. add_column pg_exec self column sname))
           (map (\<lambda>(n, ty). (safe_column_name n, safe_column_name n @ '' '' @ ty)) reps) ?db2
         = (concat (map (\<lambda>(n, ty). [DropColumn t (safe_column_name n),
                                      AddColumn t (safe_column_name n @ '' '' @ ty)]) reps),
            Inr ((), ?db2(lower t \<mapsto> fold (\<lambda>(n, ty). replace_column n ty) reps ?tab2)))" .
  have upd: "?db2(lower t \<mapsto> fold (\<lambda>(n, ty). replace_column n ty) reps ?tab2)
               = db(lower t \<mapsto> fold (\<lambda>(n, ty). replace_column n ty) (a # reps) tab)"
    unfolding a by simp
  have "for_each (\<lambda>(column_name, column).
                     and_then (drop_column pg_exec self column_name sname)
                       (\<lambda>_. add_column pg_exec self column sname))
           (map (\<lambda>(n, ty). (safe_column_name n, safe_column_name n @ '' '' @ ty)) (a # reps)) db
        = ([DropColumn t (safe_column_name n), AddColumn t (safe_column_name n @ '' '' @ ty)] @
           concat (map (\<lambda>(n, ty). [DropColumn t (safe_column_name n),
                                      AddColumn t (safe_column_name n @ '' '' @ ty)]) reps),
           Inr ((), ?db2(lower t \<mapsto> fold (\<lambda>(n, ty). replace_column n ty) reps ?tab2)))"
    unfolding a using pair ih by (simp only: list.map prod.case for_each.simps and_then_Inr fst_conv snd_conv)
  moreover have "[DropColumn t (safe_column_name n), AddColumn t (safe_column_name n @ '' '' @ ty)] @
           concat (map (\<lambda>(n, ty). [DropColumn t (safe_column_name n),
                                      AddColumn t (safe_column_name n @ '' '' @ ty)]) reps)
        = concat (map (\<lambda>(n, ty). [DropColumn t (safe_column_name n),
                                      AddColumn t (safe_column_name n @ '' '' @ ty)]) (a # reps))"
    unfolding a by simp
  ultimately show ?case by (simp only: upd)
qed

lemma columns_after_replacements:
  "distinct (map fst reps) \<Longrightarrow>
     map_of (columns_of (fold (\<lambda>(n, ty). replace_column n ty) reps tab)) m =
       (case map_of reps m of Some ty \<Rightarrow> Some ty | None \<Rightarrow> map_of (columns_of tab) m)"
proof (induction reps arbitrary: tab)
  case Nil
  then show ?case by simp
next
  case (Cons a reps)
  obtain n ty where a: "a = (n, ty)" by (cases a)
  from Cons.prems a have fresh: "map_of reps n = None" and dist: "distinct (map fst reps)"
    by (auto simp: map_of_eq_None_iff)
  have one: "map_of (columns_of (replace_column n ty tab)) m =
               (if m = n then Some ty else map_of (columns_of tab) m)"
    by (auto simp: replace_column_def map_add_def delete_conv' split: option.splits)
  show ?case
    unfolding a using Cons.IH [OF dist, of "replace_column n ty tab"] one fresh
    by (auto split: option.splits)
qed

lemma map_raise_names:
  "map_raise (\<lambda>(name, ps). case g ps of Inl e \<Rightarrow> Inl e | Inr ty \<Rightarrow> Inr (name, ty)) fs = Inr desired
     \<Longrightarrow> map fst desired = map fst fs"
  by (induction fs arbitrary: desired) (auto split: sum.splits)

lemma live_pairs:
  "list_all (\<lambda>(n, ty). lower n = n) cols \<Longrightarrow>
   map_raise (\<lambda>column. case lookup column ''column_name'' of
                           Inl e \<Rightarrow> Inl e
                         | Inr n \<Rightarrow> Inr (lower n, column))
     (map (\<lambda>(n, ty). [(''column_name'', n), (''data_type'', ty)]) cols)
   = Inr (map (\<lambda>c. (fst c, live_row c)) cols)"
  by (induction cols) (auto simp: lookup_def live_row_def)

lemma update_columns_all_live:
  assumes tn: "inflect_name (stream (stream_schema_message self)) = Inr tn"
    and tab: "db (lower (schema_name self) @ ''.'' @ lower tn) = Some tab"
    and typed: "map_raise (\<lambda>(name, ps). case column_type ps (use_simple_column_type self) of
                                     Inl e \<Rightarrow> Inl e | Inr ty \<Rightarrow> Inr (name, ty))
                  (flatten_schema_of self) = Inr desired"
    and dist: "distinct (map fst (flatten_schema_of self))"
    and names: "list_all (\<lambda>(name, ps). lower name = name \<and> CHR 0x22 \<notin> set name \<and>
                  (case map_of (columns_of tab) name of
                     None \<Rightarrow> False | Some stored \<Rightarrow> lower stored = stored))
                  (flatten_schema_of self)"
    and live: "distinct (map fst (columns_of tab))"
              "list_all (\<lambda>(n, ty). lower n = n) (columns_of tab)"
  shows "\<exists>db' tab'.
           update_columns pg_exec self db =
             (SelectColumns (lower tn) (lower (schema_name self)) #
              concat (map (\<lambda>(n, ty).
                        [DropColumn (schema_name self @ ''.'' @ tn) (safe_column_name n),
                         AddColumn (schema_name self @ ''.'' @ tn)
                           (safe_column_name n @ '' '' @ ty)])
                      (planned (columns_of tab) desired)),
              Inr ((), db')) \<and>
           db' (lower (schema_name self) @ ''.'' @ lower tn) = Some tab' \<and>
           list_all (\<lambda>(n, ty).
               map_of (columns_of tab') n =
                 (case map_of (columns_of tab) n of
                    None \<Rightarrow> None
                  | Some stored \<Rightarrow> Some (if needs_replace stored ty then ty else stored)))
             desired"
proof -
  let ?stream = "stream (stream_schema_message self)"
  let ?t = "schema_name self @ ''.'' @ tn"
  let ?K = "lower (schema_name self) @ ''.'' @ lower tn"
  let ?cols = "columns_of tab"
  let ?dict = "map (\<lambda>c. (fst c, live_row c)) ?cols"
  let ?reps = "planned ?cols desired"
  have "lower (''.'' @ tn) = ''.'' @ lower tn"
    by (simp only: lower_append lower_dot)
  then have K: "lower ?t = ?K" by (simp only: lower_append)
  have tname: "table_name self ?stream False = Inr ?t"
    using tn by (simp add: table_name_def)
  have sel: "query pg_exec (get_table_columns self tn) db
               = ([SelectColumns (lower tn) (lower (schema_name self))],
                  Inr (map (\<lambda>(n, ty). [(''column_name'', n), (''data_type'', ty)]) ?cols, db))"
    using tab by (simp add: query_def get_table_columns_def)
  have pairs: "map_raise (\<lambda>column. case lookup column ''column_name'' of
                           Inl e \<Rightarrow> Inl e
                         | Inr n \<Rightarrow> Inr (lower n, column))
     (map (\<lambda>(n, ty). [(''column_name'', n), (''data_type'', ty)]) ?cols) = Inr ?dict"
    using live(2) by (rule live_pairs)
  have keys: "map fst ?dict = map fst ?cols" by (simp add: comp_def)
  have "distinct (map fst ?dict)" using live(1) keys by (simp only:)
  then have dict: "py_dict ?dict = ?dict" by (rule py_dict_id)
  have all_live: "filter (\<lambda>(name, _). lower name \<notin> set (map fst ?dict)) (flatten_schema_of self) = []"
  proof -
    have "\<forall>x \<in> set (flatten_schema_of self). \<not> (case x of (name, _) \<Rightarrow> lower name \<notin> set (map fst ?dict))"
    proof
      fix x assume x: "x \<in> set (flatten_schema_of self)"
      obtain name ps where xp: "x = (name, ps)" by (cases x)
      from names x xp obtain stored where "lower name = name" "map_of ?cols name = Some stored"
        by (auto simp: list_all_iff split: option.splits)
      then have "lower name = name" "(name, stored) \<in> set ?cols" by (auto dest: map_of_SomeD)
      then have "lower name \<in> fst ` set ?cols" by (auto intro: rev_image_eqI)
      then show "\<not> (case x of (name, _) \<Rightarrow> lower name \<notin> set (map fst ?dict))"
        using xp keys by simp
    qed
    then show ?thesis by (simp add: filter_empty_conv)
  qed
  have names': "list_all (\<lambda>(name, ps). lower name = name \<and>
           (case map_of ?cols name of None \<Rightarrow> False | Some stored \<Rightarrow> lower stored = stored))
           (flatten_schema_of self)"
    using names by (auto simp: list_all_iff)
  have loop: "columns_to_replace_loop self ?dict (flatten_schema_of self) =
           Inr (map (\<lambda>(n, ty). (safe_column_name n, safe_column_name n @ '' '' @ ty)) ?reps)"
    using columns_to_replace_loop_live [OF typed names'] .
  have dnames: "map fst desired = map fst (flatten_schema_of self)"
    using typed by (rule map_raise_names)
  have ddist: "distinct (map fst desired)" using dist dnames by simp
  have rdist: "distinct (map fst ?reps)"
    using ddist by (simp add: planned_def distinct_map_filter)
  have dprops: "\<forall>(n, ty) \<in> set desired. CHR 0x22 \<notin> set n \<and> n \<in> fst ` set ?cols"
  proof -
    have "\<forall>n \<in> set (map fst (flatten_schema_of self)). CHR 0x22 \<notin> set n \<and> n \<in> fst ` set ?cols"
    proof
      fix n assume "n \<in> set (map fst (flatten_schema_of self))"
      then obtain ps where "(n, ps) \<in> set (flatten_schema_of self)" by auto
      with names obtain stored where q: "CHR 0x22 \<notin> set n" and "map_of ?cols n = Some stored"
        by (auto simp: list_all_iff split: option.splits)
      then have "(n, stored) \<in> set ?cols" by (auto dest: map_of_SomeD)
      then have "n \<in> fst ` set ?cols" by (auto intro: rev_image_eqI)
      with q show "CHR 0x22 \<notin> set n \<and> n \<in> fst ` set ?cols" by simp
    qed
    then have d: "\<forall>n \<in> set (map fst desired). CHR 0x22 \<notin> set n \<and> n \<in> fst ` set ?cols"
      using dnames by (simp only:)
    show ?thesis
    proof
      fix x assume x: "x \<in> set desired"
      obtain n ty where xp: "x = (n, ty)" by (cases x)
      from x xp have "n \<in> set (map fst desired)" by force
      with d have "CHR 0x22 \<notin> set n \<and> n \<in> fst ` set ?cols" by blast
      then show "case x of (n, ty) \<Rightarrow> CHR 0x22 \<notin> set n \<and> n \<in> fst ` set ?cols"
        unfolding xp by simp
    qed
  qed
  have rprops: "list_all (\<lambda>(n, ty). n \<in> fst ` set ?cols \<and> CHR 0x22 \<notin> set n) ?reps"
  proof -
    have "set ?reps \<subseteq> set desired" by (simp add: planned_def)
    with dprops have "\<forall>x \<in> set ?reps. case x of (n, ty) \<Rightarrow> CHR 0x22 \<notin> set n \<and> n \<in> fst ` set ?cols"
      by blast
    then have "\<forall>x \<in> set ?reps. case x of (n, ty) \<Rightarrow> n \<in> fst ` set ?cols \<and> CHR 0x22 \<notin> set n"
      by (simp add: case_prod_beta)
    then show ?thesis by (simp only: list_all_iff)
  qed
  have tabK: "db (lower ?t) = Some tab" using tab K by simp
  let ?tab' = "fold (\<lambda>(n, ty). replace_column n ty) ?reps tab"
  let ?db' = "db(lower ?t \<mapsto> ?tab')"
  have app: "for_each (\<lambda>(column_name, column).
                     and_then (drop_column pg_exec self column_name ?stream)
                       (\<lambda>_. add_column pg_exec self column ?stream))
           (map (\<lambda>(n, ty). (safe_column_name n, safe_column_name n @ '' '' @ ty)) ?reps) db
         = (concat (map (\<lambda>(n, ty). [DropColumn ?t (safe_column_name n),
                                      AddColumn ?t (safe_column_name n @ '' '' @ ty)]) ?reps),
            Inr ((), ?db'))"
    using tname tabK rdist rprops
    by (rule apply_replacements [where self = self and db = db and tab = tab])
  have run: "update_columns pg_exec self db =
             (SelectColumns (lower tn) (lower (schema_name self)) #
              concat (map (\<lambda>(n, ty). [DropColumn ?t (safe_column_name n),
                                      AddColumn ?t (safe_column_name n @ '' '' @ ty)]) ?reps),
              Inr ((), ?db'))"
  proof -
    let ?rest = "\<lambda>columns.
         and_then (pure_result
                     (map_raise (\<lambda>column. case lookup column ''column_name'' of
                                             Inl e \<Rightarrow> Inl e
                                           | Inr n \<Rightarrow> Inr (lower n, column)) columns)) (\<lambda>pairs.
         (let columns_dict = py_dict pairs
          in and_then (pure_result
                         (map_raise (\<lambda>(name, properties_schema).
                              column_clause name properties_schema (use_simple_column_type self))
                            (filter (\<lambda>(name, _). lower name \<notin> set (map fst columns_dict))
                               (flatten_schema_of self)))) (\<lambda>columns_to_add.
             and_then (for_each (\<lambda>column. add_column pg_exec self column ?stream)
                         columns_to_add) (\<lambda>_.
             and_then (pure_result
                         (columns_to_replace_loop self columns_dict (flatten_schema_of self)))
               (\<lambda>columns_to_replace.
                  for_each (\<lambda>(column_name, column).
                              and_then (drop_column pg_exec self column_name ?stream)
                                (\<lambda>_. add_column pg_exec self column ?stream))
                    columns_to_replace)))))"
    have first: "update_columns pg_exec self db
                   = and_then (query pg_exec (get_table_columns self tn)) ?rest db"
      unfolding update_columns_def Let_def by (simp only: tn and_then_pure_Inr)
    have rest: "?rest (map (\<lambda>(n, ty). [(''column_name'', n), (''data_type'', ty)]) ?cols) db
                  = (concat (map (\<lambda>(n, ty). [DropColumn ?t (safe_column_name n),
                                      AddColumn ?t (safe_column_name n @ '' '' @ ty)]) ?reps),
                     Inr ((), ?db'))"
      unfolding Let_def
      apply (simp only: pairs and_then_pure_Inr dict all_live)
      apply (simp only: map_raise.simps and_then_pure_Inr for_each.simps loop app)
      done
    have "and_then (query pg_exec (get_table_columns self tn)) ?rest db
            = ([SelectColumns (lower tn) (lower (schema_name self))] @
                 fst (?rest (map (\<lambda>(n, ty). [(''column_name'', n), (''data_type'', ty)]) ?cols) db),
               snd (?rest (map (\<lambda>(n, ty). [(''column_name'', n), (''data_type'', ty)]) ?cols) db))"
      using sel by (rule and_then_Inr [where m = "query pg_exec (get_table_columns self tn)"])
    then show ?thesis
      unfolding first rest by simp
  qed
  have tab': "?db' ?K = Some ?tab'" using K by simp
  have final: "list_all (\<lambda>(n, ty).
               map_of (columns_of ?tab') n =
                 (case map_of ?cols n of
                    None \<Rightarrow> None
                  | Some stored \<Rightarrow> Some (if needs_replace stored ty then ty else stored)))
             desired"
  proof -
    have "\<forall>x \<in> set desired. (case x of (n, ty) \<Rightarrow>
               map_of (columns_of ?tab') n =
                 (case map_of ?cols n of
                    None \<Rightarrow> None
                  | Some stored \<Rightarrow> Some (if needs_replace stored ty then ty else stored)))"
    proof
      fix x assume x: "x \<in> set desired"
      obtain n ty where xp: "x = (n, ty)" by (cases x)
      have mo: "map_of desired n = Some ty" using x xp ddist by simp
      have mr: "map_of ?reps n =
                  (case map_of ?cols n of
                     None \<Rightarrow> None
                   | Some stored \<Rightarrow> if needs_replace stored ty then Some ty else None)"
      proof (cases "map_of ?cols n")
        case None
        then have "\<forall>ty'. (n, ty') \<notin> set ?reps" by (auto simp: planned_def)
        then have "map_of ?reps n = None" by (auto simp: map_of_eq_None_iff)
        with None show ?thesis by simp
      next
        case (Some stored)
        show ?thesis
        proof (cases "needs_replace stored ty")
          case True
          then have "(n, ty) \<in> set ?reps" using x xp Some by (simp add: planned_def)
          then have "map_of ?reps n = Some ty" using rdist by simp
          with Some True show ?thesis by simp
        next
          case False
          have "\<forall>ty'. (n, ty') \<notin> set ?reps"
          proof (intro allI notI)
            fix ty' assume m: "(n, ty') \<in> set ?reps"
            then have "(n, ty') \<in> set desired" by (simp add: planned_def)
            then have "ty' = ty" using mo ddist by (metis map_of_is_SomeI option.inject)
            with m Some False show False by (simp add: planned_def)
          qed
          then have "map_of ?reps n = None" by (auto simp: map_of_eq_None_iff)
          with Some False show ?thesis by simp
        qed
      qed
      show "case x of (n, ty) \<Rightarrow>
               map_of (columns_of ?tab') n =
                 (case map_of ?cols n of
                    None \<Rightarrow> None
                  | Some stored \<Rightarrow> Some (if needs_replace stored ty then ty else stored))"
        unfolding xp using columns_after_replacements [OF rdist, of tab n] mr
        by (auto split: option.splits)
    qed
    then show ?thesis by (simp add: list_all_iff)
  qed
  from run tab' final show ?thesis by blast
qed

lemma update_columns_all_live_example:
  "fst (update_columns pg_exec accounts_sync accounts_db) =
     [SelectColumns ''accounts'' ''public'',
      DropColumn ''public.accounts'' (safe_column_name ''active''),
      AddColumn ''public.accounts'' (safe_column_name ''active'' @ '' boolean'')]"
proof -
  let ?tab = "\<lparr> columns_of = [(''active'', ''bigint''),
                              (''created_at'', ''timestamp without time zone''),
                              (''name'', ''character varying'')],
                rows_of = [] \<rparr>"
  let ?desired = "[(''active'', ''boolean''),
                   (''created_at'', ''timestamp with time zone''),
                   (''name'', ''character varying'')]"
  have tn: "inflect_name (stream (stream_schema_message accounts_sync)) = Inr ''accounts''"
    by code_simp
  have low: "lower (schema_name accounts_sync) = ''public''" "lower ''accounts'' = ''accounts''"
    by code_simp+
  have sname: "schema_name accounts_sync = ''public''"
    by code_simp
  have tab: "accounts_db (lower (schema_name accounts_sync) @ ''.'' @ lower ''accounts'') = Some ?tab"
    unfolding low by (simp add: accounts_db_def)
  have typed: "map_raise (\<lambda>(name, ps). case column_type ps (use_simple_column_type accounts_sync) of
                                     Inl e \<Rightarrow> Inl e | Inr ty \<Rightarrow> Inr (name, ty))
                  (flatten_schema_of accounts_sync) = Inr ?desired"
    by code_simp
  have dist: "distinct (map fst (flatten_schema_of accounts_sync))"
    by code_simp
  have names: "list_all (\<lambda>(name, ps). lower name = name \<and> CHR 0x22 \<notin> set name \<and>
                  (case map_of (columns_of ?tab) name of
                     None \<Rightarrow> False | Some stored \<Rightarrow> lower stored = stored))
                  (flatten_schema_of accounts_sync)"
    by code_simp
  have live: "distinct (map fst (columns_of ?tab))"
             "list_all (\<lambda>(n, ty). lower n = n) (columns_of ?tab)"
    by code_simp+
  have plan: "planned (columns_of ?tab) ?desired = [(''active'', ''boolean'')]"
    by code_simp
  from update_columns_all_live [where self = accounts_sync and db = accounts_db
         and tab = ?tab and desired = ?desired and tn = "''accounts''",
         OF tn tab typed dist names live]
  obtain db' where "update_columns pg_exec accounts_sync accounts_db =
      (SelectColumns (lower ''accounts'') (lower (schema_name accounts_sync)) #
       concat (map (\<lambda>(n, ty).
                 [DropColumn (schema_name accounts_sync @ ''.'' @ ''accounts'') (safe_column_name n),
                  AddColumn (schema_name accounts_sync @ ''.'' @ ''accounts'')
                    (safe_column_name n @ '' '' @ ty)])
               (planned (columns_of ?tab) ?desired)),
       Inr ((), db'))"
    by blast
  moreover have "lower ''public'' = ''public''" by code_simp
  ultimately show ?thesis unfolding plan low sname by simp
qed

end
